theory Spec2Isabelle
  imports Main "HOL-Library.Word"
begin

unbundle bit_operations_syntax

section \<open>Strings, characters and the validation constants\<close>

text \<open>
  Strings are lists of characters, one character per code unit; every string the
  validation accepts is ASCII. The constants are those of iWhitelistApplicationService.mts
  and iDynamoDbService.mts.
\<close>

type_synonym byte = "8 word"
type_synonym hash = "256 word"

definition ValidEvmAddressLen :: nat where
  "ValidEvmAddressLen = 42"

definition ValidWhitelistAmountMaxLen :: nat where
  "ValidWhitelistAmountMaxLen = 30"

definition ValidWhitelistAmountMinLen :: nat where
  "ValidWhitelistAmountMinLen = 1"

definition ValidateWhitelistEntriesMaxCount :: nat where
  "ValidateWhitelistEntriesMaxCount = 100000"

definition ValidPartitionKeyValueMaxLen :: nat where
  "ValidPartitionKeyValueMaxLen = 1024"

definition ValidPartitionKeyValueMinLen :: nat where
  "ValidPartitionKeyValueMinLen = 1"

definition ValidSortKeyValueMaxLen :: nat where
  "ValidSortKeyValueMaxLen = 1024"

definition ValidSortKeyValueMinLen :: nat where
  "ValidSortKeyValueMinLen = 1"

definition ValidWhitelistNameMaxLen :: nat where
  "ValidWhitelistNameMaxLen = ValidPartitionKeyValueMaxLen"

definition ValidWhitelistNameMinLen :: nat where
  "ValidWhitelistNameMinLen = ValidPartitionKeyValueMinLen"

definition isDigitChar :: "char \<Rightarrow> bool" where
  "isDigitChar c = (c \<in> set ''0123456789'')"

definition isLowerHexLetter :: "char \<Rightarrow> bool" where
  "isLowerHexLetter c = (c \<in> set ''abcdef'')"

definition isUpperHexLetter :: "char \<Rightarrow> bool" where
  "isUpperHexLetter c = (c \<in> set ''ABCDEF'')"

definition isHexChar :: "char \<Rightarrow> bool" where
  "isHexChar c = (isDigitChar c \<or> isLowerHexLetter c \<or> isUpperHexLetter c)"

definition isLetterChar :: "char \<Rightarrow> bool" where
  "isLetterChar c =
     (c \<in> set ''ABCDEFGHIJKLMNOPQRSTUVWXYZ'' \<or> c \<in> set ''abcdefghijklmnopqrstuvwxyz'')"

definition toLowerChar :: "char \<Rightarrow> char" where
  "toLowerChar c =
     (case map_of (zip ''ABCDEFGHIJKLMNOPQRSTUVWXYZ'' ''abcdefghijklmnopqrstuvwxyz'') c of
        Some d \<Rightarrow> d
      | None \<Rightarrow> c)"

definition toUpperChar :: "char \<Rightarrow> char" where
  "toUpperChar c =
     (case map_of (zip ''abcdefghijklmnopqrstuvwxyz'' ''ABCDEFGHIJKLMNOPQRSTUVWXYZ'') c of
        Some d \<Rightarrow> d
      | None \<Rightarrow> c)"

definition toLowerCase :: "string \<Rightarrow> string" where
  "toLowerCase s = map toLowerChar s"

text \<open>\<^verbatim>\<open>ValidEvmAddressRegex = /^(0x|0X)[0-9A-Fa-f]{40}$/\<close>\<close>

definition ValidEvmAddressRegex :: "string \<Rightarrow> bool" where
  "ValidEvmAddressRegex s =
     ((take 2 s = ''0x'' \<or> take 2 s = ''0X'')
      \<and> length (drop 2 s) = 40 \<and> list_all isHexChar (drop 2 s))"

text \<open>\<^verbatim>\<open>ValidWhitelistNameRegex = /^[A-Za-z][0-9A-Za-z_-]*$/\<close>\<close>

definition ValidWhitelistNameRegex :: "string \<Rightarrow> bool" where
  "ValidWhitelistNameRegex s =
     (case s of
        [] \<Rightarrow> False
      | c # cs \<Rightarrow>
          isLetterChar c
          \<and> list_all (\<lambda>d. isDigitChar d \<or> isLetterChar d \<or> d = CHR ''_'' \<or> d = CHR ''-'') cs)"

definition ZeroAddress :: string where
  "ZeroAddress = ''0x0000000000000000000000000000000000000000''"

text \<open>Decimal rendering of an index or a count (\<^verbatim>\<open>Number.prototype.toString\<close>).\<close>

function toString_nat :: "nat \<Rightarrow> string" where
  "toString_nat n =
     (if n < 10 then [''0123456789'' ! n]
      else toString_nat (n div 10) @ [''0123456789'' ! (n mod 10)])"
  by pat_completeness auto
termination
  by (relation "measure (\<lambda>n. n)") auto

declare toString_nat.simps [simp del]

section \<open>The cryptographic and numeric dependencies\<close>

text \<open>
  The service calls three functions of its dependencies whose code is not part of the
  repository: \<^verbatim>\<open>keccak256\<close>, \<^verbatim>\<open>parseEther\<close> and the ABI encoder of the leaf values.
  They are parameters of the model: every theorem below holds for whatever functions
  are supplied. \<^verbatim>\<open>parseEther\<close> throws on a malformed amount (\<open>None\<close>).
\<close>

record deps =
  keccak256 :: "byte list \<Rightarrow> hash"
  parseEther :: "string \<Rightarrow> int option"
  abiEncode :: "string \<Rightarrow> string \<Rightarrow> byte list"

text \<open>
  The \<open>j\<close>-th hexadecimal digit (from the most significant one) of a 32-byte hash:
  \<^verbatim>\<open>hashed[j >> 1] >> 4\<close> for even \<open>j\<close> and \<^verbatim>\<open>hashed[j >> 1] & 0x0f\<close> for odd \<open>j\<close>.
\<close>

definition nibble :: "hash \<Rightarrow> nat \<Rightarrow> nat" where
  "nibble h j = unat (drop_bit (252 - 4 * j) h) mod 16"

text \<open>
  Modelled from the spec: the canonicalisation \<^verbatim>\<open>getAddress\<close> belongs to the ethers
  dependency and is not under src/. Section 3 and the glossary name its result, the
  EIP-55 mixed-case form of the 20-byte account; an input is accepted when it is all
  lower case, all upper case or already carries the right checksum. The accepted syntax
  is the dependency's: \<^verbatim>\<open>/^(0x)?[0-9a-fA-F]{40}$/\<close>, the prefix being the lower-case
  \<^verbatim>\<open>0x\<close> or missing. (Its second syntax, ICAP, has 34 or 35 characters; the services
  only pass strings of 42 characters, and the model rejects every other string.)
  \<open>None\<close> stands for the exception the dependency throws.
\<close>

definition addressRegex :: "string \<Rightarrow> bool" where
  "addressRegex s =
     ((length s = 40 \<and> list_all isHexChar s)
      \<or> (take 2 s = ''0x'' \<and> length (drop 2 s) = 40 \<and> list_all isHexChar (drop 2 s)))"

definition mixedCase :: "string \<Rightarrow> bool" where
  "mixedCase s = (list_ex isUpperHexLetter s \<and> list_ex isLowerHexLetter s)"

definition getChecksumAddress :: "deps \<Rightarrow> string \<Rightarrow> string" where
  "getChecksumAddress d address =
     (let chars = drop 2 (toLowerCase address);
          hashed = keccak256 d (map of_char chars)
      in ''0x'' @ map (\<lambda>(j, c). if 8 \<le> nibble hashed j then toUpperChar c else c)
                     (zip [0..<40] chars))"

definition getAddress :: "deps \<Rightarrow> string \<Rightarrow> string option" where
  "getAddress d address =
     (if addressRegex address then
        (let address' = (if take 2 address = ''0x'' then address else ''0x'' @ address);
             result = getChecksumAddress d address'
         in if mixedCase address' \<and> result \<noteq> address' then None else Some result)
      else None)"

section \<open>Errors\<close>

text \<open>
  Every exception the services can raise is a value. \<open>ValidationError\<close>,
  \<open>NoSqlError\<close> (name and message) and \<open>StorageError\<close> are the repository's own
  classes; \<open>DynamoDBServiceException\<close> (name and message) is an exception of the
  key-value provider that reaches the caller unwrapped; \<open>Error\<close> and \<open>TypeError\<close>
  are the plain JavaScript classes. The route layer (index.mts) reports a
  \<open>ValidationError\<close> under the error code ValidationError and a \<open>NoSqlError\<close> under
  its name, and re-raises the rest.
\<close>

datatype error =
    ValidationError string
  | NoSqlError string string
  | StorageError string string
  | DynamoDBServiceException string string
  | Error string
  | TypeError string

fun isValidation :: "error + 'a \<Rightarrow> bool" where
  "isValidation (Inl (ValidationError m)) = True"
| "isValidation r = False"

section \<open>The input gate of CreateMerkleTree (whitelistCommandService.mts)\<close>

record WhitelistEntry =
  WhitelistAddress :: string
  WhitelistAmount :: string

text \<open>
  The callback of \<^verbatim>\<open>whitelistEntries.every\<close> (lines 84 to 145): \<open>Inl\<close> carries the
  message left in \<^verbatim>\<open>whitelistEntriesLogMessage\<close> when the callback returns false.
\<close>

definition verifyEntry :: "deps \<Rightarrow> nat \<Rightarrow> WhitelistEntry \<Rightarrow> string + unit" where
  "verifyEntry d index element =
     (if length (WhitelistAddress element) \<noteq> ValidEvmAddressLen
         \<or> \<not> ValidEvmAddressRegex (WhitelistAddress element)
      then Inl (''[ERR] Invalid whitelist address at line '' @ toString_nat index @ '': ''
                @ WhitelistAddress element)
      else if WhitelistAddress element = ZeroAddress
      then Inl (''[ERR] zero whitelist address at line '' @ toString_nat index @ '': ''
                @ WhitelistAddress element)
      else (case getAddress d (WhitelistAddress element) of
          None \<Rightarrow> Inl (''[ERR] Whitelist address invalid at line '' @ toString_nat index
                       @ '': '' @ WhitelistAddress element)
        | Some a \<Rightarrow>
            if length (WhitelistAmount element) < ValidWhitelistAmountMinLen
               \<or> length (WhitelistAmount element) > ValidWhitelistAmountMaxLen
            then Inl (''[ERR] Invalid whitelist amount length at line '' @ toString_nat index
                      @ '': '' @ WhitelistAmount element)
            else (case parseEther d (WhitelistAmount element) of
                None \<Rightarrow> Inl (''[ERR] Whitelist amount value invalid at line ''
                             @ toString_nat index @ '': '' @ WhitelistAmount element)
              | Some whitelistAmountWei \<Rightarrow>
                  if whitelistAmountWei < 0
                  then Inl (''[ERR] Invalid whitelist amount value at line ''
                            @ toString_nat index @ '': '' @ WhitelistAmount element)
                  else Inr ())))"

text \<open>\<^verbatim>\<open>Array.prototype.every\<close>: stops at the first entry the callback refuses.\<close>

fun every :: "deps \<Rightarrow> nat \<Rightarrow> WhitelistEntry list \<Rightarrow> string + unit" where
  "every d index [] = Inr ()"
| "every d index (element # rest) =
     (case verifyEntry d index element of
        Inl m \<Rightarrow> Inl m
      | Inr u \<Rightarrow> every d (Suc index) rest)"

text \<open>
  \<^verbatim>\<open>hasDuplicateAddresses\<close>: the set of the canonical addresses is smaller than the
  array. It runs after \<open>every\<close> has accepted all entries, so \<^verbatim>\<open>getAddress\<close> does not
  throw there; an entry it would throw on is given the canonical form of its own text.
\<close>

definition canonical :: "deps \<Rightarrow> string \<Rightarrow> string" where
  "canonical d a = (case getAddress d a of Some c \<Rightarrow> c | None \<Rightarrow> a)"

definition hasDuplicateAddresses :: "deps \<Rightarrow> WhitelistEntry list \<Rightarrow> bool" where
  "hasDuplicateAddresses d array =
     (card (set (map (\<lambda>element. canonical d (WhitelistAddress element)) array))
        \<noteq> length array)"

text \<open>
  Lines 77 to 160 of \<^verbatim>\<open>createMerkleTree\<close>: the count gate (\<open>inputGate\<close>), then the
  per-entry checks, the duplicate check, and the values handed to the Merkle builder
  (\<open>entryChecks\<close>), each the pair of the canonical address and the decimal string of the
  amount in wei.
\<close>

definition toString_int :: "int \<Rightarrow> string" where
  "toString_int i = (if i < 0 then ''-'' @ toString_nat (nat (- i)) else toString_nat (nat i))"

definition leafValue :: "deps \<Rightarrow> WhitelistEntry \<Rightarrow> string \<times> string" where
  "leafValue d element =
     (canonical d (WhitelistAddress element),
      toString_int (case parseEther d (WhitelistAmount element) of Some w \<Rightarrow> w | None \<Rightarrow> 0))"

definition entryChecks :: "deps \<Rightarrow> WhitelistEntry list \<Rightarrow> error + (string \<times> string) list" where
  "entryChecks d whitelistEntries =
     (case every d 0 whitelistEntries of
        Inl m \<Rightarrow> Inl (ValidationError m)
      | Inr u \<Rightarrow>
          if hasDuplicateAddresses d whitelistEntries
          then Inl (ValidationError ''[ERR] Duplicate whitelist address'')
          else Inr (map (leafValue d) whitelistEntries))"

definition inputGate :: "deps \<Rightarrow> WhitelistEntry list \<Rightarrow> error + (string \<times> string) list" where
  "inputGate d whitelistEntries =
     (if length whitelistEntries > ValidateWhitelistEntriesMaxCount
      then Inl (ValidationError (''[ERR] Number of whitelist entries exceed ''
                  @ toString_nat ValidateWhitelistEntriesMaxCount @ '': ''
                  @ toString_nat (length whitelistEntries)))
      else entryChecks d whitelistEntries)"

section \<open>The key-value provider and its adapter (dynamoDbService.mts)\<close>

datatype WhitelistStatus = Completed | Creating | Deleting | Failed

fun statusText :: "WhitelistStatus \<Rightarrow> string" where
  "statusText Completed = ''COMPLETED''"
| "statusText Creating = ''CREATING''"
| "statusText Deleting = ''DELETING''"
| "statusText Failed = ''FAILED''"

record MerkleRootRecord =
  MerkleRoot :: string
  WhitelistStatus :: WhitelistStatus

record MerkleProofRecord =
  MerkleProof :: string
  WhitelistAddress :: string
  WhitelistAmountWei :: string

text \<open>
  The provider is an external service; the model is an explicit store. The roots table
  maps a whitelist name to its row; the proofs table is the list of its items, each a
  whitelist name with a proof record, at most one per name and address. Every request
  the adapter sends takes the next entry of \<open>replies\<close>, the provider's behaviour for
  that request (an exhausted list means \<open>Respond\<close>):
  \<^item> \<open>Respond\<close>: the request is carried out; a batch write processes every item and
    answers with an empty \<^verbatim>\<open>UnprocessedItems\<close> map;
  \<^item> \<open>Throw e\<close>: the request has no effect and the send raises \<open>e\<close>;
  \<^item> \<open>Leave k\<close>: a batch write leaves its last \<open>k\<close> items unprocessed and returns them
    under the table's name in \<^verbatim>\<open>UnprocessedItems\<close>; any other request is carried out;
  \<^item> \<open>Omit\<close>: a batch write processes every item and answers without an
    \<^verbatim>\<open>UnprocessedItems\<close> field; any other request is carried out.
  Two fields only observe the run: \<open>history\<close> receives the name and the new row
  (\<open>None\<close> once deleted) at every write to the roots table, and \<open>clock\<close> is the time
  in milliseconds spent in \<^verbatim>\<open>waitMs\<close>.
\<close>

datatype reply = Respond | Throw error | Leave nat | Omit

record store =
  roots :: "string \<rightharpoonup> MerkleRootRecord"
  proofs :: "(string \<times> MerkleProofRecord) list"
  replies :: "reply list"
  history :: "(string \<times> MerkleRootRecord option) list"
  clock :: nat

definition send :: "store \<Rightarrow> reply \<times> store" where
  "send st = (case replies st of [] \<Rightarrow> (Respond, st) | r # rs \<Rightarrow> (r, st\<lparr>replies := rs\<rparr>))"

definition waitMs :: "store \<Rightarrow> nat \<Rightarrow> store" where
  "waitMs st ms = st\<lparr>clock := clock st + ms\<rparr>"

text \<open>The two condition expressions the data service uses are built from these.\<close>

datatype condition =
    MerkleRootEq string
  | WhitelistStatusEq WhitelistStatus
  | CondAnd condition condition
  | CondOr condition condition

fun holds :: "condition \<Rightarrow> MerkleRootRecord option \<Rightarrow> bool" where
  "holds (MerkleRootEq r) item = (case item of None \<Rightarrow> False | Some i \<Rightarrow> MerkleRoot i = r)"
| "holds (WhitelistStatusEq s) item =
     (case item of None \<Rightarrow> False | Some i \<Rightarrow> WhitelistStatus i = s)"
| "holds (CondAnd a b) item = (holds a item \<and> holds b item)"
| "holds (CondOr a b) item = (holds a item \<or> holds b item)"

definition invalidPartitionKeyValue :: "string \<Rightarrow> bool" where
  "invalidPartitionKeyValue v =
     (length v < ValidPartitionKeyValueMinLen \<or> length v > ValidPartitionKeyValueMaxLen)"

definition invalidSortKeyValue :: "string \<Rightarrow> bool" where
  "invalidSortKeyValue v =
     (length v < ValidSortKeyValueMinLen \<or> length v > ValidSortKeyValueMaxLen)"

text \<open>
  The table names and key names come from the configuration and pass the adapter's
  checks on them; the checks on the key values are kept. Each adapter function is
  written once per table it is used on.
\<close>

definition roots_getItem :: "store \<Rightarrow> string \<Rightarrow> (error + MerkleRootRecord option) \<times> store" where
  "roots_getItem st partitionKeyValue =
     (if invalidPartitionKeyValue partitionKeyValue
      then (Inl (ValidationError (''[ERR] Invalid partition key value: '' @ partitionKeyValue)), st)
      else (let (r, st1) = send st
            in case r of
                 Throw e \<Rightarrow> (Inl e, st1)
               | _ \<Rightarrow> (Inr (roots st1 partitionKeyValue), st1)))"

definition lookupProof ::
  "(string \<times> MerkleProofRecord) list \<Rightarrow> string \<Rightarrow> string \<Rightarrow> MerkleProofRecord option" where
  "lookupProof table partitionKeyValue sortKeyValue =
     map_option snd
       (find (\<lambda>(n, p). n = partitionKeyValue \<and> WhitelistAddress p = sortKeyValue) table)"

definition proofs_getItem ::
  "store \<Rightarrow> string \<Rightarrow> string \<Rightarrow> (error + MerkleProofRecord option) \<times> store" where
  "proofs_getItem st partitionKeyValue sortKeyValue =
     (if invalidPartitionKeyValue partitionKeyValue
      then (Inl (ValidationError (''[ERR] Invalid partition key value: '' @ partitionKeyValue)), st)
      else if sortKeyValue = []
      then (Inl (ValidationError ''[ERR] Missing sort key value''), st)
      else if invalidSortKeyValue sortKeyValue
      then (Inl (ValidationError (''[ERR] Invalid sort key value: '' @ sortKeyValue)), st)
      else (let (r, st1) = send st
            in case r of
                 Throw e \<Rightarrow> (Inl e, st1)
               | _ \<Rightarrow> (Inr (lookupProof (proofs st1) partitionKeyValue sortKeyValue), st1)))"

text \<open>
  \<^verbatim>\<open>paginatedQuery\<close>: the pages of one query are one request here; a failure on any
  page raises with the table unchanged all the same.
\<close>

definition proofs_paginatedQuery ::
  "store \<Rightarrow> string \<Rightarrow> (error + (string \<times> MerkleProofRecord) list) \<times> store" where
  "proofs_paginatedQuery st partitionKeyValue =
     (if invalidPartitionKeyValue partitionKeyValue
      then (Inl (ValidationError (''[ERR] Invalid partition key value: '' @ partitionKeyValue)), st)
      else (let (r, st1) = send st
            in case r of
                 Throw e \<Rightarrow> (Inl e, st1)
               | _ \<Rightarrow> (Inr (filter (\<lambda>(n, p). n = partitionKeyValue) (proofs st1)), st1)))"

definition writeRoot :: "store \<Rightarrow> string \<Rightarrow> MerkleRootRecord option \<Rightarrow> store" where
  "writeRoot st partitionKeyValue row =
     st\<lparr>roots := (roots st)(partitionKeyValue := row),
        history := history st @ [(partitionKeyValue, row)]\<rparr>"

text \<open>
  \<^verbatim>\<open>putItem\<close> with its optional condition expression. The provider evaluates the
  condition on the stored item and refuses the write with
  ConditionalCheckFailedException when it does not hold.
\<close>

definition roots_putItem ::
  "store \<Rightarrow> string \<Rightarrow> MerkleRootRecord \<Rightarrow> condition option \<Rightarrow> (error + unit) \<times> store" where
  "roots_putItem st partitionKeyValue record conditionExpression =
     (if invalidPartitionKeyValue partitionKeyValue
      then (Inl (ValidationError (''[ERR] Invalid partition key value: '' @ partitionKeyValue)), st)
      else (let (r, st1) = send st
            in case r of
                 Throw e \<Rightarrow> (Inl e, st1)
               | _ \<Rightarrow>
                   (case conditionExpression of
                      None \<Rightarrow> (Inr (), writeRoot st1 partitionKeyValue (Some record))
                    | Some c \<Rightarrow>
                        if holds c (roots st1 partitionKeyValue)
                        then (Inr (), writeRoot st1 partitionKeyValue (Some record))
                        else (Inl (DynamoDBServiceException ''ConditionalCheckFailedException''
                                     ''The conditional request failed''), st1))))"

text \<open>
  \<^verbatim>\<open>executeInsertStatement\<close> sends the PartiQL statement \<^verbatim>\<open>INSERT INTO table value {...}\<close>.
  The provider refuses an insert on an existing primary key with DuplicateItemException,
  the exception the data service's handler names next to ConditionalCheckFailedException.
\<close>

definition roots_executeInsertStatement ::
  "store \<Rightarrow> string \<Rightarrow> MerkleRootRecord \<Rightarrow> (error + unit) \<times> store" where
  "roots_executeInsertStatement st partitionKeyValue record =
     (if invalidPartitionKeyValue partitionKeyValue
      then (Inl (ValidationError (''[ERR] Invalid partition key value: '' @ partitionKeyValue)), st)
      else (let (r, st1) = send st
            in case r of
                 Throw e \<Rightarrow> (Inl e, st1)
               | _ \<Rightarrow>
                   (case roots st1 partitionKeyValue of
                      Some existing \<Rightarrow>
                        (Inl (DynamoDBServiceException ''DuplicateItemException''
                                ''Duplicate primary key exists in table''), st1)
                    | None \<Rightarrow> (Inr (), writeRoot st1 partitionKeyValue (Some record)))))"

definition roots_deleteItem :: "store \<Rightarrow> string \<Rightarrow> (error + unit) \<times> store" where
  "roots_deleteItem st partitionKeyValue =
     (if invalidPartitionKeyValue partitionKeyValue
      then (Inl (ValidationError (''[ERR] Invalid partition key value: '' @ partitionKeyValue)), st)
      else (let (r, st1) = send st
            in case r of
                 Throw e \<Rightarrow> (Inl e, st1)
               | _ \<Rightarrow> (Inr (), writeRoot st1 partitionKeyValue None)))"

text \<open>\<^verbatim>\<open>chunkArray\<close>: consecutive slices of \<open>stride\<close> items (the stride is 25 everywhere).\<close>

function chunkArray :: "'a list \<Rightarrow> nat \<Rightarrow> 'a list list" where
  "chunkArray array stride =
     (if array = [] \<or> stride = 0 then []
      else take stride array # chunkArray (drop stride array) stride)"
  by pat_completeness auto
termination
  by (relation "measure (\<lambda>(array, stride). length array)") auto

declare chunkArray.simps [simp del]

definition BatchExecuteMaxItems :: nat where
  "BatchExecuteMaxItems = 25"

definition BatchWriteMaxItems :: nat where
  "BatchWriteMaxItems = 25"

definition BatchWriteDefaultExponentialFactor :: nat where
  "BatchWriteDefaultExponentialFactor = 2"

definition BatchWriteDefaultMaxRetries :: int where
  "BatchWriteDefaultMaxRetries = 3"

definition BatchWriteDefaultMinTimeoutMs :: nat where
  "BatchWriteDefaultMinTimeoutMs = 10"

fun joinWith :: "string \<Rightarrow> string list \<Rightarrow> string" where
  "joinWith sep [] = []"
| "joinWith sep [x] = x"
| "joinWith sep (x # y # ys) = x @ sep @ joinWith sep (y # ys)"

text \<open>
  One statement of a \<^verbatim>\<open>BatchExecuteStatement\<close> request: the statements of a batch are
  carried out one by one, and one that meets an existing key reports its error in the
  response without stopping the others.
\<close>

definition insertStatement ::
  "(string \<times> MerkleProofRecord) list \<Rightarrow> string \<Rightarrow> MerkleProofRecord
     \<Rightarrow> string option \<times> (string \<times> MerkleProofRecord) list" where
  "insertStatement table partitionKeyValue record =
     (case lookupProof table partitionKeyValue (WhitelistAddress record) of
        Some existing \<Rightarrow> (Some ''Duplicate primary key exists in table'', table)
      | None \<Rightarrow> (None, table @ [(partitionKeyValue, record)]))"

fun executeStatements ::
  "(string \<times> MerkleProofRecord) list \<Rightarrow> string \<Rightarrow> MerkleProofRecord list
     \<Rightarrow> string option list \<times> (string \<times> MerkleProofRecord) list" where
  "executeStatements table partitionKeyValue [] = ([], table)"
| "executeStatements table partitionKeyValue (record # rest) =
     (let (e, table1) = insertStatement table partitionKeyValue record;
          (es, table2) = executeStatements table1 partitionKeyValue rest
      in (e # es, table2))"

fun insertChunks ::
  "store \<Rightarrow> string \<Rightarrow> MerkleProofRecord list list \<Rightarrow> (error + unit) \<times> store" where
  "insertChunks st partitionKeyValue [] = (Inr (), st)"
| "insertChunks st partitionKeyValue (chunk # rest) =
     (let (r, st1) = send st
      in case r of
           Throw e \<Rightarrow> (Inl e, st1)
         | _ \<Rightarrow>
             (let (responses, table) = executeStatements (proofs st1) partitionKeyValue chunk;
                  st2 = st1\<lparr>proofs := table\<rparr>
              in if length responses > 0 \<and> \<not> list_all (\<lambda>e. e = None) responses
                 then (Inl (Error (''[ERR] batch execute statement command error: ''
                              @ joinWith '', ''
                                  (map (\<lambda>e. case e of Some m \<Rightarrow> m | None \<Rightarrow> []) responses))),
                       st2)
                 else insertChunks st2 partitionKeyValue rest))"

definition proofs_batchInsertExecuteStatement ::
  "store \<Rightarrow> string \<Rightarrow> MerkleProofRecord list \<Rightarrow> (error + unit) \<times> store" where
  "proofs_batchInsertExecuteStatement st partitionKeyValue records =
     (if invalidPartitionKeyValue partitionKeyValue
      then (Inl (ValidationError (''[ERR] Invalid partition key value: '' @ partitionKeyValue)), st)
      else insertChunks st partitionKeyValue (chunkArray records BatchExecuteMaxItems))"

text \<open>
  What the adapter reads in the response of a \<^verbatim>\<open>BatchWriteCommand\<close>:
  \<^verbatim>\<open>response.UnprocessedItems\<close> is undefined (\<open>NoMap\<close>), a map without an entry for
  the table (\<open>NoTableEntry\<close>), or a map whose entry for the table is a list.
\<close>

datatype 'a unprocessed = NoMap | NoTableEntry | TableEntry "'a list"

definition batchWriteReply :: "reply \<Rightarrow> 'a list \<Rightarrow> 'a list \<times> 'a unprocessed" where
  "batchWriteReply r requests =
     (case r of
        Leave k \<Rightarrow> (take (length requests - k) requests,
                    TableEntry (drop (length requests - k) requests))
      | Omit \<Rightarrow> (requests, NoMap)
      | _ \<Rightarrow> (requests, NoTableEntry))"

definition deleteProofs ::
  "(string \<times> MerkleProofRecord) list \<Rightarrow> string \<Rightarrow> string list
     \<Rightarrow> (string \<times> MerkleProofRecord) list" where
  "deleteProofs table partitionKeyValue sortKeyValues =
     filter (\<lambda>(n, p). \<not> (n = partitionKeyValue \<and> WhitelistAddress p \<in> set sortKeyValues)) table"

definition putProof ::
  "string \<Rightarrow> (string \<times> MerkleProofRecord) list \<Rightarrow> MerkleProofRecord
     \<Rightarrow> (string \<times> MerkleProofRecord) list" where
  "putProof partitionKeyValue table record =
     deleteProofs table partitionKeyValue [WhitelistAddress record] @ [(partitionKeyValue, record)]"

text \<open>
  The \<^verbatim>\<open>do ... while\<close> loop of \<^verbatim>\<open>batchDeleteWrite\<close> on one chunk (lines 185 to 210):
  \<open>command\<close> is the list of sort keys of the pending \<^verbatim>\<open>BatchWriteCommand\<close>. The
  unprocessed items are read with
  \<^verbatim>\<open>response.UnprocessedItems?.[tableName] ? ... : []\<close>.
\<close>

function batchDeleteLoop ::
  "store \<Rightarrow> string \<Rightarrow> string list \<Rightarrow> nat \<Rightarrow> int \<Rightarrow> (error + unit) \<times> store" where
  "batchDeleteLoop st partitionKeyValue command retryCount maxRetries =
     (let (r, st1) = send st
      in case r of
           Throw e \<Rightarrow> (Inl e, st1)
         | _ \<Rightarrow>
             (let (processed, response) = batchWriteReply r command;
                  st2 = st1\<lparr>proofs := deleteProofs (proofs st1) partitionKeyValue processed\<rparr>;
                  unprocessedItems =
                    (case response of TableEntry items \<Rightarrow> items | _ \<Rightarrow> []);
                  hasUnprocessedItems = (length unprocessedItems > 0);
                  command' = (if hasUnprocessedItems then unprocessedItems else command);
                  st3 = waitMs st2 (BatchWriteDefaultMinTimeoutMs
                                      * BatchWriteDefaultExponentialFactor ^ retryCount)
              in if hasUnprocessedItems \<and> int (retryCount + 1) \<le> maxRetries
                 then batchDeleteLoop st3 partitionKeyValue command' (retryCount + 1) maxRetries
                 else (Inr (), st3)))"
  by pat_completeness auto
termination
  by (relation "measure (\<lambda>(st, k, command, retryCount, maxRetries).
                   nat (maxRetries + 1 - int retryCount))") auto

declare batchDeleteLoop.simps [simp del]

fun deleteChunks :: "store \<Rightarrow> string \<Rightarrow> string list list \<Rightarrow> int \<Rightarrow> (error + unit) \<times> store" where
  "deleteChunks st partitionKeyValue [] maxRetries = (Inr (), st)"
| "deleteChunks st partitionKeyValue (chunk # rest) maxRetries =
     (case batchDeleteLoop st partitionKeyValue chunk 0 maxRetries of
        (Inl e, st1) \<Rightarrow> (Inl e, st1)
      | (Inr u, st1) \<Rightarrow> deleteChunks st1 partitionKeyValue rest maxRetries)"

fun everySortKeyValue :: "nat \<Rightarrow> string list \<Rightarrow> string + unit" where
  "everySortKeyValue index [] = Inr ()"
| "everySortKeyValue index (element # rest) =
     (if invalidSortKeyValue element
      then Inl (''[ERR] Invalid sort key value at '' @ toString_nat index @ '': '' @ element)
      else everySortKeyValue (Suc index) rest)"

definition proofs_batchDeleteWrite ::
  "store \<Rightarrow> string \<Rightarrow> string list \<Rightarrow> int \<Rightarrow> (error + unit) \<times> store" where
  "proofs_batchDeleteWrite st partitionKeyValue sortKeyValues maxRetries =
     (if invalidPartitionKeyValue partitionKeyValue
      then (Inl (ValidationError (''[ERR] Invalid partition key value: '' @ partitionKeyValue)), st)
      else if maxRetries < 0
      then (Inl (ValidationError (''[ERR] Max retries must be greater or equal to zero: ''
                   @ toString_int maxRetries)), st)
      else (case everySortKeyValue 0 sortKeyValues of
          Inl m \<Rightarrow> (Inl (ValidationError m), st)
        | Inr u \<Rightarrow>
            deleteChunks st partitionKeyValue (chunkArray sortKeyValues BatchWriteMaxItems)
              maxRetries))"

text \<open>
  The same loop in \<^verbatim>\<open>batchPutWrite\<close> (lines 364 to 389). Here the unprocessed items are
  read with \<^verbatim>\<open>response.UnprocessedItems ? response.UnprocessedItems[tableName] : []\<close>,
  and the next statement takes their \<^verbatim>\<open>length\<close>: on a map without an entry for the
  table that is the length of \<^verbatim>\<open>undefined\<close>, a TypeError.
\<close>

function batchPutLoop ::
  "store \<Rightarrow> string \<Rightarrow> MerkleProofRecord list \<Rightarrow> nat \<Rightarrow> int \<Rightarrow> (error + unit) \<times> store" where
  "batchPutLoop st partitionKeyValue command retryCount maxRetries =
     (let (r, st1) = send st
      in case r of
           Throw e \<Rightarrow> (Inl e, st1)
         | _ \<Rightarrow>
             (let (processed, response) = batchWriteReply r command;
                  st2 = st1\<lparr>proofs := foldl (putProof partitionKeyValue) (proofs st1) processed\<rparr>
              in case response of
                   NoTableEntry \<Rightarrow>
                     (Inl (TypeError ''Cannot read properties of undefined (reading length)''),
                      st2)
                 | _ \<Rightarrow>
                     (let unprocessedItems =
                            (case response of TableEntry items \<Rightarrow> items | _ \<Rightarrow> []);
                          hasUnprocessedItems = (length unprocessedItems > 0);
                          command' = (if hasUnprocessedItems then unprocessedItems else command);
                          st3 = waitMs st2 (BatchWriteDefaultMinTimeoutMs
                                              * BatchWriteDefaultExponentialFactor ^ retryCount)
                      in if hasUnprocessedItems \<and> int (retryCount + 1) \<le> maxRetries
                         then batchPutLoop st3 partitionKeyValue command' (retryCount + 1)
                                maxRetries
                         else (Inr (), st3))))"
  by pat_completeness auto
termination
  by (relation "measure (\<lambda>(st, k, command, retryCount, maxRetries).
                   nat (maxRetries + 1 - int retryCount))") auto

declare batchPutLoop.simps [simp del]

fun putChunks ::
  "store \<Rightarrow> string \<Rightarrow> MerkleProofRecord list list \<Rightarrow> int \<Rightarrow> (error + unit) \<times> store" where
  "putChunks st partitionKeyValue [] maxRetries = (Inr (), st)"
| "putChunks st partitionKeyValue (chunk # rest) maxRetries =
     (case batchPutLoop st partitionKeyValue chunk 0 maxRetries of
        (Inl e, st1) \<Rightarrow> (Inl e, st1)
      | (Inr u, st1) \<Rightarrow> putChunks st1 partitionKeyValue rest maxRetries)"

definition proofs_batchPutWrite ::
  "store \<Rightarrow> string \<Rightarrow> MerkleProofRecord list \<Rightarrow> int \<Rightarrow> (error + unit) \<times> store" where
  "proofs_batchPutWrite st partitionKeyValue records maxRetries =
     (if invalidPartitionKeyValue partitionKeyValue
      then (Inl (ValidationError (''[ERR] Invalid partition key value: '' @ partitionKeyValue)), st)
      else if maxRetries < 0
      then (Inl (ValidationError (''[ERR] Max retries must be greater or equal to zero: ''
                   @ toString_int maxRetries)), st)
      else putChunks st partitionKeyValue (chunkArray records BatchWriteMaxItems) maxRetries)"

section \<open>The data service (whitelistDataService.mts)\<close>

text \<open>
  Every \<^verbatim>\<open>catch\<close> block of the data service is the same cascade of \<^verbatim>\<open>instanceof\<close>
  tests: each exception class of the provider, and last their common base class
  DynamoDBServiceException, is wrapped into a \<open>NoSqlError\<close> that keeps the exception's
  name and its message (the message of an AccessDeniedException becomes "Access
  denied"); anything else is thrown again as it is.
\<close>

fun rethrow :: "error \<Rightarrow> error" where
  "rethrow (DynamoDBServiceException name message) =
     NoSqlError name (if name = ''AccessDeniedException'' then ''Access denied'' else message)"
| "rethrow err = err"

definition creatingCondition :: "string \<Rightarrow> condition" where
  "creatingCondition merkleRoot =
     CondAnd (MerkleRootEq merkleRoot) (WhitelistStatusEq Creating)"

definition deletableCondition :: "string \<Rightarrow> condition" where
  "deletableCondition merkleRoot =
     CondAnd (MerkleRootEq merkleRoot)
       (CondOr (WhitelistStatusEq Completed) (WhitelistStatusEq Failed))"

definition deletingCondition :: "string \<Rightarrow> condition" where
  "deletingCondition merkleRoot =
     CondAnd (MerkleRootEq merkleRoot) (WhitelistStatusEq Deleting)"

text \<open>\<^verbatim>\<open>createMerkleTree\<close> of the data service (lines 57 to 425).\<close>

definition data_createMerkleTree ::
  "store \<Rightarrow> string \<Rightarrow> string \<Rightarrow> MerkleProofRecord list \<Rightarrow> (error + unit) \<times> store" where
  "data_createMerkleTree st whitelistName merkleRoot merkleProofRecords =
     (if length whitelistName < ValidPartitionKeyValueMinLen
         \<or> length whitelistName > ValidPartitionKeyValueMaxLen
      then (Inl (ValidationError (''[ERR] Invalid whitelist name: '' @ whitelistName)), st)
      else (case roots_executeInsertStatement st whitelistName
                   \<lparr>MerkleRoot = merkleRoot, WhitelistStatus = Creating\<rparr> of
          (Inl err, st1) \<Rightarrow> (Inl (rethrow err), st1)
        | (Inr u, st1) \<Rightarrow>
            (case proofs_batchInsertExecuteStatement st1 whitelistName merkleProofRecords of
               (Inl err, st2) \<Rightarrow>
                 (case roots_putItem st2 whitelistName
                         \<lparr>MerkleRoot = merkleRoot, WhitelistStatus = Failed\<rparr>
                         (Some (creatingCondition merkleRoot)) of
                    (Inl putErr, st3) \<Rightarrow> (Inl putErr, st3)
                  | (Inr u, st3) \<Rightarrow> (Inl (rethrow err), st3))
             | (Inr u, st2) \<Rightarrow>
                 (case roots_putItem st2 whitelistName
                         \<lparr>MerkleRoot = merkleRoot, WhitelistStatus = Completed\<rparr>
                         (Some (creatingCondition merkleRoot)) of
                    (Inl err, st3) \<Rightarrow> (Inl (rethrow err), st3)
                  | (Inr u, st3) \<Rightarrow> (Inr (), st3)))))"

text \<open>
  The \<^verbatim>\<open>try\<close> body of step 3 of \<^verbatim>\<open>deleteMerkleTree\<close> (lines 698 to 718): query the
  proof rows, delete them by sort key, delete the roots row.
\<close>

definition deleteProofsAndRoot :: "store \<Rightarrow> string \<Rightarrow> (error + unit) \<times> store" where
  "deleteProofsAndRoot st whitelistName =
     (case proofs_paginatedQuery st whitelistName of
        (Inl err, st1) \<Rightarrow> (Inl err, st1)
      | (Inr merkleProofItems, st1) \<Rightarrow>
          (let deleteSortKeys = map (\<lambda>(n, item). WhitelistAddress item) merkleProofItems
           in case proofs_batchDeleteWrite st1 whitelistName deleteSortKeys
                     BatchWriteDefaultMaxRetries of
                (Inl err, st2) \<Rightarrow> (Inl err, st2)
              | (Inr u, st2) \<Rightarrow> roots_deleteItem st2 whitelistName))"

text \<open>\<^verbatim>\<open>deleteMerkleTree\<close> of the data service (lines 427 to 866).\<close>

definition data_deleteMerkleTree :: "store \<Rightarrow> string \<Rightarrow> (error + unit) \<times> store" where
  "data_deleteMerkleTree st whitelistName =
     (if length whitelistName < ValidPartitionKeyValueMinLen
         \<or> length whitelistName > ValidPartitionKeyValueMaxLen
      then (Inl (ValidationError (''[ERR] Invalid partition key value: '' @ whitelistName)), st)
      else (case roots_getItem st whitelistName of
          (Inl err, st1) \<Rightarrow> (Inl (rethrow err), st1)
        | (Inr None, st1) \<Rightarrow>
            (Inl (ValidationError (''[ERR] Merkle tree not found: '' @ whitelistName)), st1)
        | (Inr (Some merkleRootItem), st1) \<Rightarrow>
            if WhitelistStatus merkleRootItem \<noteq> Completed
               \<and> WhitelistStatus merkleRootItem \<noteq> Failed
            then (Inl (ValidationError (''[ERR] Merkle tree pending: ''
                         @ statusText (WhitelistStatus merkleRootItem))), st1)
            else (case roots_putItem st1 whitelistName
                         \<lparr>MerkleRoot = MerkleRoot merkleRootItem, WhitelistStatus = Deleting\<rparr>
                         (Some (deletableCondition (MerkleRoot merkleRootItem))) of
                (Inl err, st2) \<Rightarrow> (Inl (rethrow err), st2)
              | (Inr u, st2) \<Rightarrow>
                  (case deleteProofsAndRoot st2 whitelistName of
                     (Inr u, st3) \<Rightarrow> (Inr (), st3)
                   | (Inl err, st3) \<Rightarrow>
                       (case roots_putItem st3 whitelistName
                               \<lparr>MerkleRoot = MerkleRoot merkleRootItem,
                                WhitelistStatus = Failed\<rparr>
                               (Some (deletingCondition (MerkleRoot merkleRootItem))) of
                          (Inl putErr, st4) \<Rightarrow> (Inl putErr, st4)
                        | (Inr u, st4) \<Rightarrow> (Inl (rethrow err), st4))))))"

text \<open>\<^verbatim>\<open>getMerkleRoot\<close> of the data service (lines 1317 to 1426).\<close>

definition data_getMerkleRoot ::
  "store \<Rightarrow> string \<Rightarrow> (error + MerkleRootRecord option) \<times> store" where
  "data_getMerkleRoot st whitelistName =
     (if length whitelistName < ValidPartitionKeyValueMinLen
         \<or> length whitelistName > ValidPartitionKeyValueMaxLen
      then (Inl (ValidationError (''[ERR] Invalid whitelist name: '' @ whitelistName)), st)
      else (case roots_getItem st whitelistName of
          (Inl err, st1) \<Rightarrow> (Inl (rethrow err), st1)
        | (Inr merkleRootRecord, st1) \<Rightarrow> (Inr merkleRootRecord, st1)))"

text \<open>\<^verbatim>\<open>getMerkleProof\<close> of the data service (lines 868 to 1102).\<close>

definition data_getMerkleProof ::
  "store \<Rightarrow> string \<Rightarrow> string \<Rightarrow> (error + MerkleProofRecord option) \<times> store" where
  "data_getMerkleProof st whitelistName whitelistAddress =
     (if length whitelistName < ValidPartitionKeyValueMinLen
         \<or> length whitelistName > ValidPartitionKeyValueMaxLen
      then (Inl (ValidationError (''[ERR] Invalid whitelist name: '' @ whitelistName)), st)
      else if length whitelistAddress \<noteq> ValidEvmAddressLen
              \<or> \<not> ValidEvmAddressRegex whitelistAddress
      then (Inl (ValidationError (''[ERR] Invalid whitelist address: '' @ whitelistAddress)), st)
      else if whitelistAddress = ZeroAddress
      then (Inl (ValidationError (''[ERR] zero whitelist address: '' @ whitelistAddress)), st)
      else (case roots_getItem st whitelistName of
          (Inl err, st1) \<Rightarrow> (Inl (rethrow err), st1)
        | (Inr None, st1) \<Rightarrow>
            (Inl (ValidationError (''[ERR] Merkle tree not found: '' @ whitelistName)), st1)
        | (Inr (Some merkleRootItem), st1) \<Rightarrow>
            if WhitelistStatus merkleRootItem \<noteq> Completed
            then (Inl (ValidationError (''[ERR] Merkle tree not completed: ''
                         @ statusText (WhitelistStatus merkleRootItem))), st1)
            else (case proofs_getItem st1 whitelistName whitelistAddress of
                (Inl err, st2) \<Rightarrow> (Inl (rethrow err), st2)
              | (Inr merkleProofRecord, st2) \<Rightarrow> (Inr merkleProofRecord, st2))))"

section \<open>The data service between two awaits\<close>

text \<open>
  \<^verbatim>\<open>createMerkleTree\<close> and \<^verbatim>\<open>deleteMerkleTree\<close> are asynchronous functions: a call is
  suspended at every \<^verbatim>\<open>await\<close> of an adapter function, and other calls of the service
  run on the same two tables meanwhile. A \<open>call\<close> is a call in progress: the adapter
  function it is about to await, with the values it holds at that point (the name, the
  MerkleRoot it inserted or read, the exception caught by the \<^verbatim>\<open>catch\<close> block it is in),
  or the result it has returned. \<open>resume\<close> runs a call up to its next \<^verbatim>\<open>await\<close>, on
  the store as it is at that moment:
  \<^item> \<open>CreateInsert\<close> (line 57): the name check and the insert of lines 79 to 85;
  \<^item> \<open>CreateProofs\<close>: the bulk insert of lines 207 to 213;
  \<^item> \<open>CreateCompensate\<close>: the \<^verbatim>\<open>catch\<close> block of lines 214 to 276, which puts FAILED;
  \<^item> \<open>CreateComplete\<close>: the put of COMPLETED, lines 278 to 292;
  \<^item> \<open>DeleteRead\<close> (line 427): the name check, the read of the row and the two tests on
    it;
  \<^item> \<open>DeleteFlip\<close>: the put of DELETING;
  \<^item> \<open>DeleteQuery\<close>, \<open>DeleteProofs\<close>, \<open>DeleteRoot\<close>: the three awaits of the \<^verbatim>\<open>try\<close>
    body of lines 698 to 718;
  \<^item> \<open>DeleteCompensate\<close>: its \<^verbatim>\<open>catch\<close> block, lines 719 to 865, which puts FAILED.
  One step is one call of the adapter. The requests to the roots table are one step
  each; the two batch operations send several requests within their step, all of them
  to the proofs table.
\<close>

datatype call =
    CreateInsert string string "MerkleProofRecord list"
  | CreateProofs string string "MerkleProofRecord list"
  | CreateCompensate string string error
  | CreateComplete string string
  | DeleteRead string
  | DeleteFlip string string
  | DeleteQuery string string
  | DeleteProofs string string "string list"
  | DeleteRoot string string
  | DeleteCompensate string string error
  | Returned "error + unit"

fun resume :: "store \<Rightarrow> call \<Rightarrow> call \<times> store" where
  "resume st (CreateInsert whitelistName merkleRoot merkleProofRecords) =
     (if length whitelistName < ValidPartitionKeyValueMinLen
         \<or> length whitelistName > ValidPartitionKeyValueMaxLen
      then (Returned (Inl (ValidationError (''[ERR] Invalid whitelist name: '' @ whitelistName))),
            st)
      else (case roots_executeInsertStatement st whitelistName
                   \<lparr>MerkleRoot = merkleRoot, WhitelistStatus = Creating\<rparr> of
          (Inl err, st1) \<Rightarrow> (Returned (Inl (rethrow err)), st1)
        | (Inr u, st1) \<Rightarrow> (CreateProofs whitelistName merkleRoot merkleProofRecords, st1)))"
| "resume st (CreateProofs whitelistName merkleRoot merkleProofRecords) =
     (case proofs_batchInsertExecuteStatement st whitelistName merkleProofRecords of
        (Inl err, st2) \<Rightarrow> (CreateCompensate whitelistName merkleRoot err, st2)
      | (Inr u, st2) \<Rightarrow> (CreateComplete whitelistName merkleRoot, st2))"
| "resume st (CreateCompensate whitelistName merkleRoot err) =
     (case roots_putItem st whitelistName
             \<lparr>MerkleRoot = merkleRoot, WhitelistStatus = Failed\<rparr>
             (Some (creatingCondition merkleRoot)) of
        (Inl putErr, st3) \<Rightarrow> (Returned (Inl putErr), st3)
      | (Inr u, st3) \<Rightarrow> (Returned (Inl (rethrow err)), st3))"
| "resume st (CreateComplete whitelistName merkleRoot) =
     (case roots_putItem st whitelistName
             \<lparr>MerkleRoot = merkleRoot, WhitelistStatus = Completed\<rparr>
             (Some (creatingCondition merkleRoot)) of
        (Inl err, st3) \<Rightarrow> (Returned (Inl (rethrow err)), st3)
      | (Inr u, st3) \<Rightarrow> (Returned (Inr ()), st3))"
| "resume st (DeleteRead whitelistName) =
     (if length whitelistName < ValidPartitionKeyValueMinLen
         \<or> length whitelistName > ValidPartitionKeyValueMaxLen
      then (Returned (Inl (ValidationError (''[ERR] Invalid partition key value: ''
                             @ whitelistName))), st)
      else (case roots_getItem st whitelistName of
          (Inl err, st1) \<Rightarrow> (Returned (Inl (rethrow err)), st1)
        | (Inr None, st1) \<Rightarrow>
            (Returned (Inl (ValidationError (''[ERR] Merkle tree not found: '' @ whitelistName))),
             st1)
        | (Inr (Some merkleRootItem), st1) \<Rightarrow>
            if WhitelistStatus merkleRootItem \<noteq> Completed
               \<and> WhitelistStatus merkleRootItem \<noteq> Failed
            then (Returned (Inl (ValidationError (''[ERR] Merkle tree pending: ''
                                   @ statusText (WhitelistStatus merkleRootItem)))), st1)
            else (DeleteFlip whitelistName (MerkleRoot merkleRootItem), st1)))"
| "resume st (DeleteFlip whitelistName merkleRoot) =
     (case roots_putItem st whitelistName
             \<lparr>MerkleRoot = merkleRoot, WhitelistStatus = Deleting\<rparr>
             (Some (deletableCondition merkleRoot)) of
        (Inl err, st2) \<Rightarrow> (Returned (Inl (rethrow err)), st2)
      | (Inr u, st2) \<Rightarrow> (DeleteQuery whitelistName merkleRoot, st2))"
| "resume st (DeleteQuery whitelistName merkleRoot) =
     (case proofs_paginatedQuery st whitelistName of
        (Inl err, st1) \<Rightarrow> (DeleteCompensate whitelistName merkleRoot err, st1)
      | (Inr merkleProofItems, st1) \<Rightarrow>
          (DeleteProofs whitelistName merkleRoot
             (map (\<lambda>(n, item). WhitelistAddress item) merkleProofItems), st1))"
| "resume st (DeleteProofs whitelistName merkleRoot deleteSortKeys) =
     (case proofs_batchDeleteWrite st whitelistName deleteSortKeys BatchWriteDefaultMaxRetries of
        (Inl err, st2) \<Rightarrow> (DeleteCompensate whitelistName merkleRoot err, st2)
      | (Inr u, st2) \<Rightarrow> (DeleteRoot whitelistName merkleRoot, st2))"
| "resume st (DeleteRoot whitelistName merkleRoot) =
     (case roots_deleteItem st whitelistName of
        (Inl err, st3) \<Rightarrow> (DeleteCompensate whitelistName merkleRoot err, st3)
      | (Inr u, st3) \<Rightarrow> (Returned (Inr ()), st3))"
| "resume st (DeleteCompensate whitelistName merkleRoot err) =
     (case roots_putItem st whitelistName
             \<lparr>MerkleRoot = merkleRoot, WhitelistStatus = Failed\<rparr>
             (Some (deletingCondition merkleRoot)) of
        (Inl putErr, st4) \<Rightarrow> (Returned (Inl putErr), st4)
      | (Inr u, st4) \<Rightarrow> (Returned (Inl (rethrow err)), st4))"
| "resume st (Returned result) = (Returned result, st)"

text \<open>
  \<open>steps k\<close> resumes one call \<open>k\<close> times with nothing in between; a call run so from its
  start is the function of the data service (lemmas \<open>create_steps\<close> and \<open>delete_steps\<close>).
\<close>

fun steps :: "nat \<Rightarrow> store \<Rightarrow> call \<Rightarrow> call \<times> store" where
  "steps 0 st c = (c, st)"
| "steps (Suc k) st c = (case resume st c of (c', st') \<Rightarrow> steps k st' c')"

text \<open>
  Concurrent calls: the service receives the operations, each call starts at its first
  await, and a schedule names, step after step, the call that is resumed next (an index
  that names no call is skipped). Every interleaving of the awaits of the calls is the
  run of some schedule.
\<close>

datatype operation =
    CreateTree string string "MerkleProofRecord list"
  | DeleteTree string

fun start :: "operation \<Rightarrow> call" where
  "start (CreateTree whitelistName merkleRoot merkleProofRecords) =
     CreateInsert whitelistName merkleRoot merkleProofRecords"
| "start (DeleteTree whitelistName) = DeleteRead whitelistName"

fun interleave :: "store \<Rightarrow> call list \<Rightarrow> nat list \<Rightarrow> call list \<times> store" where
  "interleave st calls [] = (calls, st)"
| "interleave st calls (i # schedule) =
     (if i < length calls
      then (case resume st (calls ! i) of (c, st') \<Rightarrow> interleave st' (calls[i := c]) schedule)
      else interleave st calls schedule)"

section \<open>The query service (whitelistQueryService.mts)\<close>

definition invalidWhitelistName :: "string \<Rightarrow> bool" where
  "invalidWhitelistName whitelistName =
     (length whitelistName < ValidWhitelistNameMinLen
      \<or> length whitelistName > ValidWhitelistNameMaxLen
      \<or> \<not> ValidWhitelistNameRegex whitelistName)"

text \<open>\<^verbatim>\<open>getMerkleProof\<close> of the query service (lines 25 to 92).\<close>

definition query_getMerkleProof ::
  "deps \<Rightarrow> store \<Rightarrow> string \<Rightarrow> string \<Rightarrow> (error + MerkleProofRecord option) \<times> store" where
  "query_getMerkleProof d st whitelistName whitelistAddress =
     (if invalidWhitelistName whitelistName
      then (Inl (ValidationError (''[ERR] Invalid whitelist name: '' @ whitelistName)), st)
      else if length whitelistAddress \<noteq> ValidEvmAddressLen
              \<or> \<not> ValidEvmAddressRegex whitelistAddress
      then (Inl (ValidationError (''[ERR] Invalid whitelist address: '' @ whitelistAddress)), st)
      else if whitelistAddress = ZeroAddress
      then (Inl (ValidationError (''[ERR] zero whitelist address: '' @ whitelistAddress)), st)
      else (case getAddress d whitelistAddress of
          None \<Rightarrow>
            (Inl (ValidationError (''[ERR] Whitelist address invalid: '' @ whitelistAddress)), st)
        | Some normalizedAddress \<Rightarrow>
            (case data_getMerkleRoot st whitelistName of
               (Inl err, st1) \<Rightarrow> (Inl err, st1)
             | (Inr None, st1) \<Rightarrow>
                 (Inl (ValidationError (''[ERR] Merkle tree not found: '' @ whitelistName)), st1)
             | (Inr (Some merkleRootRecord), st1) \<Rightarrow>
                 if WhitelistStatus merkleRootRecord \<noteq> Completed
                 then (Inl (ValidationError (''[ERR] Merkle tree not ready: ''
                              @ statusText (WhitelistStatus merkleRootRecord))), st1)
                 else data_getMerkleProof st1 whitelistName normalizedAddress)))"

section \<open>The Merkle builder\<close>

text \<open>
  Modelled from the spec: the tree construction \<^verbatim>\<open>StandardMerkleTree.of\<close>, \<^verbatim>\<open>tree.root\<close>
  and \<^verbatim>\<open>tree.getProof\<close> belong to the Merkle-tree dependency and are not under src/.
  Section 4.3 gives the leaf as the double hash of the ABI-encoded pair, the node as the
  hash of the two children ordered by unsigned big-endian comparison, the root of a
  single-leaf tree as the leaf, and the proof as the sibling hashes from the leaf up to,
  and without, the root. The layout is the dependency's: the leaves are sorted by hash
  and fill an array of \<open>2n - 1\<close> nodes from its end, node \<open>i\<close> has the children
  \<open>2i + 1\<close> and \<open>2i + 2\<close>, and the root is node 0. (It is the layout behind the fixture of
  onchain/test/MerkleTreeWhitelist.ts, whose five leaves have proofs of 3, 2, 2, 2 and 3
  siblings.) A hash is a 256-bit word, so the comparison of two hashes is the order of
  the words.
\<close>

definition bytes32 :: "hash \<Rightarrow> byte list" where
  "bytes32 h = map (\<lambda>i. ucast (drop_bit (8 * (31 - i)) h)) [0..<32]"

definition toHex :: "hash \<Rightarrow> string" where
  "toHex h = ''0x'' @ map (\<lambda>j. ''0123456789abcdef'' ! nibble h j) [0..<64]"

definition standardLeafHash :: "deps \<Rightarrow> string \<times> string \<Rightarrow> hash" where
  "standardLeafHash d v = keccak256 d (bytes32 (keccak256 d (abiEncode d (fst v) (snd v))))"

definition standardNodeHash :: "deps \<Rightarrow> hash \<Rightarrow> hash \<Rightarrow> hash" where
  "standardNodeHash d a b =
     keccak256 d (if a > b then bytes32 b @ bytes32 a else bytes32 a @ bytes32 b)"

fun fillNodes :: "deps \<Rightarrow> nat \<Rightarrow> hash list \<Rightarrow> hash list" where
  "fillNodes d 0 tree = tree"
| "fillNodes d (Suc i) tree =
     fillNodes d i (tree[i := standardNodeHash d (tree ! (2 * i + 1)) (tree ! (2 * i + 2))])"

definition makeMerkleTree :: "deps \<Rightarrow> hash list \<Rightarrow> error + hash list" where
  "makeMerkleTree d leaves =
     (if length leaves = 0 then Inl (Error ''Expected non-zero number of leaves'')
      else Inr (fillNodes d (length leaves - 1)
                  (replicate (length leaves - 1) 0 @ rev leaves)))"

definition siblingIndex :: "nat \<Rightarrow> nat" where
  "siblingIndex i = (if even i then i - 1 else i + 1)"

definition parentIndex :: "nat \<Rightarrow> nat" where
  "parentIndex i = (i - 1) div 2"

function getProofLoop :: "hash list \<Rightarrow> nat \<Rightarrow> hash list" where
  "getProofLoop tree index =
     (if index = 0 then []
      else tree ! siblingIndex index # getProofLoop tree (parentIndex index))"
  by pat_completeness auto
termination
  by (relation "measure (\<lambda>(tree, index). index)") (auto simp: parentIndex_def)

declare getProofLoop.simps [simp del]

definition isLeafNode :: "hash list \<Rightarrow> nat \<Rightarrow> bool" where
  "isLeafNode tree i = (i < length tree \<and> \<not> 2 * i + 1 < length tree)"

definition getProof :: "hash list \<Rightarrow> nat \<Rightarrow> error + hash list" where
  "getProof tree index =
     (if \<not> isLeafNode tree index then Inl (Error ''Index is not a leaf'')
      else Inr (getProofLoop tree index))"

definition processProof :: "deps \<Rightarrow> hash \<Rightarrow> hash list \<Rightarrow> hash" where
  "processProof d leaf proof = foldl (standardNodeHash d) leaf proof"

record StandardMerkleTree =
  tree :: "hash list"
  indexedValues :: "((string \<times> string) \<times> nat) list"

definition StandardMerkleTree_of :: "deps \<Rightarrow> (string \<times> string) list \<Rightarrow> error + StandardMerkleTree" where
  "StandardMerkleTree_of d vs =
     (let hashedValues = zip [0..<length vs] (map (standardLeafHash d) vs);
          sorted = sort_key snd hashedValues
      in case makeMerkleTree d (map snd sorted) of
           Inl e \<Rightarrow> Inl e
         | Inr t \<Rightarrow>
             Inr \<lparr>tree = t,
                  indexedValues =
                    foldl (\<lambda>acc (leafIndex, (valueIndex, h)).
                             acc[valueIndex := (fst (acc ! valueIndex), length t - leafIndex - 1)])
                          (map (\<lambda>v. (v, 0)) vs)
                          (zip [0..<length sorted] sorted)\<rparr>)"

definition tree_getProof :: "deps \<Rightarrow> StandardMerkleTree \<Rightarrow> nat \<Rightarrow> error + hash list" where
  "tree_getProof d t index =
     (if \<not> index < length (indexedValues t) then Inl (Error ''Index out of bounds'')
      else (let treeIndex = snd (indexedValues t ! index)
            in case getProof (tree t) treeIndex of
                 Inl e \<Rightarrow> Inl e
               | Inr proof \<Rightarrow>
                   if processProof d (tree t ! treeIndex) proof \<noteq> tree t ! 0
                   then Inl (Error ''Unable to prove value'')
                   else Inr proof))"

text \<open>
  Lines 161 to 177 of \<^verbatim>\<open>createMerkleTree\<close> (command service): build the tree, take
  its root, and collect for every entry, in the order of the entries, its proof and its
  value.
\<close>

fun collectProofs ::
  "deps \<Rightarrow> StandardMerkleTree \<Rightarrow> nat list \<Rightarrow> error + (hash list \<times> (string \<times> string)) list" where
  "collectProofs d t [] = Inr []"
| "collectProofs d t (index # rest) =
     (case tree_getProof d t index of
        Inl e \<Rightarrow> Inl e
      | Inr proof \<Rightarrow>
          (case collectProofs d t rest of
             Inl e \<Rightarrow> Inl e
           | Inr ps \<Rightarrow> Inr ((proof, fst (indexedValues t ! index)) # ps)))"

definition merkleBuilder ::
  "deps \<Rightarrow> (string \<times> string) list \<Rightarrow> error + hash \<times> (hash list \<times> (string \<times> string)) list" where
  "merkleBuilder d vs =
     (case StandardMerkleTree_of d vs of
        Inl e \<Rightarrow> Inl e
      | Inr t \<Rightarrow>
          (case collectProofs d t [0..<length (indexedValues t)] of
             Inl e \<Rightarrow> Inl e
           | Inr ps \<Rightarrow> Inr (tree t ! 0, ps)))"

definition toMerkleProofRecord :: "hash list \<times> (string \<times> string) \<Rightarrow> MerkleProofRecord" where
  "toMerkleProofRecord p =
     \<lparr>MerkleProof = joinWith '','' (map toHex (fst p)),
      WhitelistAddress = fst (snd p),
      WhitelistAmountWei = snd (snd p)\<rparr>"

section \<open>The command service (whitelistCommandService.mts)\<close>

text \<open>
  \<^verbatim>\<open>createMerkleTree\<close> of the command service. The object store and the CSV parser are
  outside the model: \<open>getObject\<close> is the outcome of \<^verbatim>\<open>s3Service.getObject\<close> for a key
  and \<open>parse\<close> the outcome of the CSV parser on a content.
\<close>

definition cmd_createMerkleTree ::
  "deps \<Rightarrow> (string \<Rightarrow> error + string option) \<Rightarrow> (string \<Rightarrow> error + WhitelistEntry list)
     \<Rightarrow> store \<Rightarrow> string \<Rightarrow> (error + unit) \<times> store" where
  "cmd_createMerkleTree d getObject parse st whitelistName =
     (if invalidWhitelistName whitelistName
      then (Inl (ValidationError (''[ERR] Invalid whitelist name: '' @ whitelistName)), st)
      else (case getObject (whitelistName @ ''.csv'') of
          Inl e \<Rightarrow> (Inl e, st)
        | Inr None \<Rightarrow>
            (Inl (ValidationError (''[ERR] Whitelist not found: '' @ whitelistName)), st)
        | Inr (Some whitelistContent) \<Rightarrow>
            if whitelistContent = []
            then (Inl (ValidationError (''[ERR] Whitelist not found: '' @ whitelistName)), st)
            else (case parse whitelistContent of
                Inl e \<Rightarrow> (Inl e, st)
              | Inr whitelistEntries \<Rightarrow>
                  (case inputGate d whitelistEntries of
                     Inl e \<Rightarrow> (Inl e, st)
                   | Inr vs \<Rightarrow>
                       (case merkleBuilder d vs of
                          Inl e \<Rightarrow> (Inl e, st)
                        | Inr (root, ps) \<Rightarrow>
                            data_createMerkleTree st whitelistName (toHex root)
                              (map toMerkleProofRecord ps))))))"

definition cmd_deleteMerkleTree :: "store \<Rightarrow> string \<Rightarrow> (error + unit) \<times> store" where
  "cmd_deleteMerkleTree st whitelistName =
     (if invalidWhitelistName whitelistName
      then (Inl (ValidationError (''[ERR] Invalid whitelist name: '' @ whitelistName)), st)
      else data_deleteMerkleTree st whitelistName)"

section \<open>The on-chain verifier (MerkleTreeWhitelist.sol)\<close>

text \<open>
  \<^verbatim>\<open>isWhitelistedFor\<close>: the address and the amount are given in the forms the off-chain
  service emits them, which the ABI encoder turns into the 64 bytes of
  \<^verbatim>\<open>abi.encode(whitelistAddress, whitelistAmountWei)\<close>; \<open>Inl\<close> is the message of a failed
  \<^verbatim>\<open>require\<close>. \<^verbatim>\<open>MerkleProof.verify\<close> folds the proof with the hash of the sorted pair.
\<close>

definition commutativeKeccak256 :: "deps \<Rightarrow> hash \<Rightarrow> hash \<Rightarrow> hash" where
  "commutativeKeccak256 d a b =
     (if a < b then keccak256 d (bytes32 a @ bytes32 b) else keccak256 d (bytes32 b @ bytes32 a))"

definition MerkleProof_verify :: "deps \<Rightarrow> hash list \<Rightarrow> hash \<Rightarrow> hash \<Rightarrow> bool" where
  "MerkleProof_verify d proof root leaf = (foldl (commutativeKeccak256 d) leaf proof = root)"

definition isWhitelistedFor ::
  "deps \<Rightarrow> hash \<Rightarrow> string \<Rightarrow> string \<Rightarrow> hash list \<Rightarrow> string + bool" where
  "isWhitelistedFor d merkleRoot whitelistAddress whitelistAmountWei proof =
     (if whitelistAddress = ZeroAddress then Inl ''MTWL: zero address''
      else (let leaf = keccak256 d
                         (bytes32 (keccak256 d (abiEncode d whitelistAddress whitelistAmountWei)))
            in if \<not> MerkleProof_verify d proof merkleRoot leaf then Inl ''MTWL: invalid proof''
               else Inr True))"

section \<open>Auxiliary notions for the statements\<close>

text \<open>
  The provider's behaviour for the next request, and the store once that request has
  been answered without effect.
\<close>

definition nextReply :: "store \<Rightarrow> reply" where
  "nextReply st = (case replies st of [] \<Rightarrow> Respond | r # rs \<Rightarrow> r)"

definition consume :: "store \<Rightarrow> store" where
  "consume st = st\<lparr>replies := tl (replies st)\<rparr>"

fun isThrow :: "reply \<Rightarrow> bool" where
  "isThrow (Throw e) = True"
| "isThrow r = False"

text \<open>
  The error code under which the route layer reports a failure (index.mts, lines 325 to
  342): ValidationError for the validation class, the exception's name for a storage or
  NoSQL error; anything else is raised again and has no code.
\<close>

fun errorCode :: "error \<Rightarrow> string option" where
  "errorCode (ValidationError m) = Some ''ValidationError''"
| "errorCode (StorageError n m) = Some n"
| "errorCode (NoSqlError n m) = Some n"
| "errorCode e = None"

text \<open>
  What one attempt of the delete loop leaves behind, and the items its response reports
  as unprocessed.
\<close>

definition unprocessedOf :: "reply \<Rightarrow> 'a list \<Rightarrow> 'a list" where
  "unprocessedOf r command =
     (case snd (batchWriteReply r command) of TableEntry items \<Rightarrow> items | _ \<Rightarrow> [])"

definition afterAttempt :: "store \<Rightarrow> string \<Rightarrow> string list \<Rightarrow> nat \<Rightarrow> store" where
  "afterAttempt st k command rc =
     waitMs ((consume st)\<lparr>proofs := deleteProofs (proofs st) k
                                      (fst (batchWriteReply (nextReply st) command))\<rparr>)
       (BatchWriteDefaultMinTimeoutMs * BatchWriteDefaultExponentialFactor ^ rc)"

text \<open>Concrete inputs for the examples: stand-ins for the dependencies, and stores.\<close>

definition exampleDeps :: deps where
  "exampleDeps =
     \<lparr>keccak256 = (\<lambda>bs. 0), parseEther = (\<lambda>s. Some 1), abiEncode = (\<lambda>a w. [])\<rparr>"

definition emptyStore :: store where
  "emptyStore = \<lparr>roots = Map.empty, proofs = [], replies = [], history = [], clock = 0\<rparr>"

definition completedStore :: store where
  "completedStore =
     emptyStore\<lparr>roots := [''w0'' \<mapsto> \<lparr>MerkleRoot = ''0x01'', WhitelistStatus = Completed\<rparr>]\<rparr>"

definition exampleProof :: MerkleProofRecord where
  "exampleProof =
     \<lparr>MerkleProof = [],
      WhitelistAddress = ''0x1111111111111111111111111111111111111111'',
      WhitelistAmountWei = ''1''\<rparr>"

definition bulkFailure :: error where
  "bulkFailure = DynamoDBServiceException ''InternalServerError'' ''bulk insert''"

definition queryFailure :: error where
  "queryFailure = DynamoDBServiceException ''InternalServerError'' ''query''"

definition putFailure :: error where
  "putFailure =
     DynamoDBServiceException ''ProvisionedThroughputExceededException'' ''compensating put''"

definition bulkFailsStore :: store where
  "bulkFailsStore = emptyStore\<lparr>replies := [Respond, Throw bulkFailure]\<rparr>"

definition bulkAndPutFailStore :: store where
  "bulkAndPutFailStore = emptyStore\<lparr>replies := [Respond, Throw bulkFailure, Throw putFailure]\<rparr>"

definition queryFailsStore :: store where
  "queryFailsStore = completedStore\<lparr>replies := [Respond, Respond, Throw queryFailure]\<rparr>"

definition queryAndPutFailStore :: store where
  "queryAndPutFailStore =
     completedStore\<lparr>replies := [Respond, Respond, Throw queryFailure, Throw putFailure]\<rparr>"

definition headerOnlyObject :: "string \<Rightarrow> error + string option" where
  "headerOnlyObject key = Inr (Some ''WhitelistAddress,WhitelistAmount'')"

definition parsedNoRows :: "string \<Rightarrow> error + WhitelistEntry list" where
  "parsedNoRows content = Inr []"

definition exampleEntry :: WhitelistEntry where
  "exampleEntry =
     \<lparr>WhitelistEntry.WhitelistAddress = ''0x1111111111111111111111111111111111111111'',
      WhitelistAmount = ''1''\<rparr>"

definition upperPrefixAddress :: string where
  "upperPrefixAddress = ''0Xd31FE45F219963F58A7B380dA710646858F48031''"

definition upperPrefixEntry :: WhitelistEntry where
  "upperPrefixEntry =
     \<lparr>WhitelistEntry.WhitelistAddress = upperPrefixAddress, WhitelistAmount = ''6666.67''\<rparr>"

definition lowerForm :: string where
  "lowerForm = ''0xd31fe45f219963f58a7b380da710646858f48031''"

definition upperForm :: string where
  "upperForm = ''0xD31FE45F219963F58A7B380DA710646858F48031''"

definition storedProof :: MerkleProofRecord where
  "storedProof =
     \<lparr>MerkleProof = [], WhitelistAddress = lowerForm, WhitelistAmountWei = ''1''\<rparr>"

definition proofsStore :: store where
  "proofsStore = completedStore\<lparr>proofs := [(''w0'', storedProof)]\<rparr>"

definition creatingStore :: store where
  "creatingStore =
     emptyStore\<lparr>roots := [''w0'' \<mapsto> \<lparr>MerkleRoot = ''0x01'', WhitelistStatus = Creating\<rparr>],
                proofs := [(''w0'', storedProof)]\<rparr>"

text \<open>
  The transitions of the roots row (section 4.4 of the specification): absent to
  CREATING; CREATING to COMPLETED or FAILED; COMPLETED or FAILED to DELETING; DELETING to
  FAILED or absent. A transition between two rows keeps the MerkleRoot value.
\<close>

fun legal :: "MerkleRootRecord option \<Rightarrow> MerkleRootRecord option \<Rightarrow> bool" where
  "legal None (Some r') = (WhitelistStatus r' = Creating)"
| "legal (Some r) None = (WhitelistStatus r = Deleting)"
| "legal (Some r) (Some r') =
     (MerkleRoot r' = MerkleRoot r
      \<and> ((WhitelistStatus r = Creating
           \<and> (WhitelistStatus r' = Completed \<or> WhitelistStatus r' = Failed))
         \<or> ((WhitelistStatus r = Completed \<or> WhitelistStatus r = Failed)
            \<and> WhitelistStatus r' = Deleting)
         \<or> (WhitelistStatus r = Deleting \<and> WhitelistStatus r' = Failed)))"
| "legal None None = False"

text \<open>
  A list of writes to the roots table, each the name and the new row, is played from a
  table: \<open>follows\<close> says that every write is a transition of the row it writes, from the
  row as the previous writes left it, and \<open>replay\<close> is the table after the writes.
\<close>

fun follows ::
  "(string \<rightharpoonup> MerkleRootRecord) \<Rightarrow> (string \<times> MerkleRootRecord option) list \<Rightarrow> bool" where
  "follows t [] = True"
| "follows t ((k, row) # ws) = (legal (t k) row \<and> follows (t(k := row)) ws)"

fun replay ::
  "(string \<rightharpoonup> MerkleRootRecord) \<Rightarrow> (string \<times> MerkleRootRecord option) list
     \<Rightarrow> (string \<rightharpoonup> MerkleRootRecord)" where
  "replay t [] = t"
| "replay t ((k, row) # ws) = replay (t(k := row)) ws"

text \<open>
  A later store extends an earlier one when the writes added to the history are
  transitions, played from the earlier roots table, and lead to the later roots table.
\<close>

definition extends :: "store \<Rightarrow> store \<Rightarrow> bool" where
  "extends st st' =
     (\<exists>ws. history st' = history st @ ws \<and> follows (roots st) ws
           \<and> roots st' = replay (roots st) ws)"

text \<open>
  The array of a tree on \<open>n\<close> leaves: \<open>2n - 1\<close> nodes, every inner node the hash of its
  two children.
\<close>

definition wellFormed :: "deps \<Rightarrow> nat \<Rightarrow> hash list \<Rightarrow> bool" where
  "wellFormed d n t =
     (0 < n \<and> length t = 2 * n - 1
      \<and> (\<forall>i<n - 1. t ! i = standardNodeHash d (t ! (2 * i + 1)) (t ! (2 * i + 2))))"

text \<open>
  The body of the loop that fills \<open>indexedValues\<close> in \<open>StandardMerkleTree_of\<close>, for an array
  of \<open>sz\<close> nodes.
\<close>

definition assign ::
  "nat \<Rightarrow> ((string \<times> string) \<times> nat) list \<Rightarrow> nat \<times> nat \<times> hash \<Rightarrow> ((string \<times> string) \<times> nat) list" where
  "assign sz = (\<lambda>acc (leafIndex, (valueIndex, h)).
                  acc[valueIndex := (fst (acc ! valueIndex), sz - leafIndex - 1)])"

text \<open>A list of two valid entries, and the values the gate hands to the builder for it.\<close>

definition secondEntry :: WhitelistEntry where
  "secondEntry =
     \<lparr>WhitelistEntry.WhitelistAddress = ''0x2222222222222222222222222222222222222222'',
      WhitelistAmount = ''1''\<rparr>"

definition exampleEntries :: "WhitelistEntry list" where
  "exampleEntries = [exampleEntry, secondEntry]"

definition exampleValues :: "(string \<times> string) list" where
  "exampleValues = [(''0x1111111111111111111111111111111111111111'', ''1''),
                    (''0x2222222222222222222222222222222222222222'', ''1'')]"

text \<open>
  Notions for the proofs about interleaved calls. \<open>nameOf\<close> is the whitelist name a call
  works on. \<open>holding\<close> is the row a call has written and not yet released: (root,
  CREATING) from the insert of CreateTree to its last put, (root, DELETING) from the put
  of DeleteTree to the delete of the row or the compensating put. A row is \<open>busy\<close> when
  its status is CREATING or DELETING. \<open>owned\<close> is the invariant of the runs: the row of
  every name held by a call is the row that call holds, and no two calls hold the same
  name. \<open>quiet\<close> and \<open>wrote\<close> describe the effect of one step on the roots table and on
  the history of its writes.
\<close>

fun nameOf :: "call \<Rightarrow> string" where
  "nameOf (CreateInsert n r ps) = n"
| "nameOf (CreateProofs n r ps) = n"
| "nameOf (CreateCompensate n r e) = n"
| "nameOf (CreateComplete n r) = n"
| "nameOf (DeleteRead n) = n"
| "nameOf (DeleteFlip n r) = n"
| "nameOf (DeleteQuery n r) = n"
| "nameOf (DeleteProofs n r ks) = n"
| "nameOf (DeleteRoot n r) = n"
| "nameOf (DeleteCompensate n r e) = n"
| "nameOf (Returned res) = []"

fun holding :: "call \<Rightarrow> (string \<times> MerkleRootRecord) option" where
  "holding (CreateProofs n r ps) = Some (n, \<lparr>MerkleRoot = r, WhitelistStatus = Creating\<rparr>)"
| "holding (CreateCompensate n r e) = Some (n, \<lparr>MerkleRoot = r, WhitelistStatus = Creating\<rparr>)"
| "holding (CreateComplete n r) = Some (n, \<lparr>MerkleRoot = r, WhitelistStatus = Creating\<rparr>)"
| "holding (DeleteQuery n r) = Some (n, \<lparr>MerkleRoot = r, WhitelistStatus = Deleting\<rparr>)"
| "holding (DeleteProofs n r ks) = Some (n, \<lparr>MerkleRoot = r, WhitelistStatus = Deleting\<rparr>)"
| "holding (DeleteRoot n r) = Some (n, \<lparr>MerkleRoot = r, WhitelistStatus = Deleting\<rparr>)"
| "holding (DeleteCompensate n r e) = Some (n, \<lparr>MerkleRoot = r, WhitelistStatus = Deleting\<rparr>)"
| "holding c = None"

fun busy :: "MerkleRootRecord option \<Rightarrow> bool" where
  "busy None = False"
| "busy (Some row) = (WhitelistStatus row = Creating \<or> WhitelistStatus row = Deleting)"

definition owned :: "store \<Rightarrow> call list \<Rightarrow> bool" where
  "owned st calls =
     (\<forall>i<length calls. \<forall>n row. holding (calls ! i) = Some (n, row) \<longrightarrow>
        roots st n = Some row
        \<and> (\<forall>j<length calls. j \<noteq> i \<longrightarrow> (\<forall>row'. holding (calls ! j) \<noteq> Some (n, row'))))"

definition quiet :: "store \<Rightarrow> store \<Rightarrow> bool" where
  "quiet st st' = (roots st' = roots st \<and> history st' = history st)"

definition wrote :: "store \<Rightarrow> store \<Rightarrow> string \<Rightarrow> MerkleRootRecord option \<Rightarrow> bool" where
  "wrote st st' k new =
     (roots st' = (roots st)(k := new) \<and> history st' = history st @ [(k, new)])"

text \<open>
  Four calls on one name and an interleaving of their steps: the first CreateTree
  inserts; the second CreateTree comes in while the row is CREATING; the first
  CreateTree finishes; the two DeleteTree calls both read the COMPLETED row, the first
  puts DELETING, the second then attempts the same put, and the first runs to its end.
\<close>

definition raceOperations :: "operation list" where
  "raceOperations =
     [CreateTree ''w0'' ''0x02'' [exampleProof], CreateTree ''w0'' ''0x03'' [exampleProof],
      DeleteTree ''w0'', DeleteTree ''w0'']"

definition raceSchedule :: "nat list" where
  "raceSchedule = [0, 1, 0, 0, 2, 3, 2, 3, 2, 2, 2]"

text \<open>
  A second stand-in for the hash, all of whose hexadecimal digits are f: under it the
  checksummed form of an address has every letter in upper case. The store holds one
  proof item, under the checksummed form of \<open>lowerForm\<close>. \<open>upperPrefixForm\<close> is
  \<open>lowerForm\<close> written with the prefix 0X.
\<close>

definition checksumDeps :: deps where
  "checksumDeps =
     \<lparr>keccak256 = (\<lambda>bs. - 1), parseEther = (\<lambda>s. Some 1), abiEncode = (\<lambda>a w. [])\<rparr>"

definition checksummedProof :: MerkleProofRecord where
  "checksummedProof =
     \<lparr>MerkleProof = [], WhitelistAddress = upperForm, WhitelistAmountWei = ''1''\<rparr>"

definition checksumStore :: store where
  "checksumStore = completedStore\<lparr>proofs := [(''w0'', checksummedProof)]\<rparr>"

definition upperPrefixForm :: string where
  "upperPrefixForm = ''0Xd31fe45f219963f58a7b380da710646858f48031''"

section \<open>Basic facts about the provider model\<close>

lemma send_eq: "send st = (nextReply st, consume st)"
  by (cases "replies st") (simp_all add: send_def nextReply_def consume_def)

lemma consume_fields [simp]:
  "roots (consume st) = roots st" "proofs (consume st) = proofs st"
  "history (consume st) = history st" "clock (consume st) = clock st"
  "replies (consume st) = tl (replies st)"
  by (simp_all add: consume_def)

lemma waitMs_fields [simp]:
  "roots (waitMs st ms) = roots st" "proofs (waitMs st ms) = proofs st"
  "history (waitMs st ms) = history st" "clock (waitMs st ms) = clock st + ms"
  "replies (waitMs st ms) = replies st"
  by (simp_all add: waitMs_def)

lemma writeRoot_fields [simp]:
  "roots (writeRoot st k row) = (roots st)(k := row)"
  "proofs (writeRoot st k row) = proofs st"
  "history (writeRoot st k row) = history st @ [(k, row)]"
  "replies (writeRoot st k row) = replies st"
  "clock (writeRoot st k row) = clock st"
  by (simp_all add: writeRoot_def)

lemma isThrow_cases: "isThrow r \<Longrightarrow> \<exists>e. r = Throw e"
  by (cases r) auto

lemma pair_with_snd: "fst p = x \<Longrightarrow> p = (x, snd p)"
  by (cases p) simp

lemma invalidKey_unfold:
  "invalidPartitionKeyValue k =
    (length k < ValidPartitionKeyValueMinLen \<or> length k > ValidPartitionKeyValueMaxLen)"
  by (simp add: invalidPartitionKeyValue_def)

lemma roots_putItem_Throw:
  "\<not> invalidPartitionKeyValue k \<Longrightarrow> nextReply st = Throw e \<Longrightarrow>
     roots_putItem st k row c = (Inl e, consume st)"
  by (simp add: roots_putItem_def send_eq)

lemma roots_putItem_holds:
  "\<not> invalidPartitionKeyValue k \<Longrightarrow> \<not> isThrow (nextReply st) \<Longrightarrow> holds c (roots st k) \<Longrightarrow>
     roots_putItem st k row (Some c) = (Inr (), writeRoot (consume st) k (Some row))"
  by (cases "nextReply st") (simp_all add: roots_putItem_def send_eq)

lemma roots_putItem_refused:
  "\<not> invalidPartitionKeyValue k \<Longrightarrow> \<not> isThrow (nextReply st) \<Longrightarrow> \<not> holds c (roots st k) \<Longrightarrow>
     roots_putItem st k row (Some c) =
       (Inl (DynamoDBServiceException ''ConditionalCheckFailedException''
               ''The conditional request failed''), consume st)"
  by (cases "nextReply st") (simp_all add: roots_putItem_def send_eq)

lemma roots_getItem_Throw:
  "\<not> invalidPartitionKeyValue k \<Longrightarrow> nextReply st = Throw e \<Longrightarrow>
     roots_getItem st k = (Inl e, consume st)"
  by (simp add: roots_getItem_def send_eq)

lemma roots_getItem_ok:
  "\<not> invalidPartitionKeyValue k \<Longrightarrow> \<not> isThrow (nextReply st) \<Longrightarrow>
     roots_getItem st k = (Inr (roots st k), consume st)"
  by (cases "nextReply st") (simp_all add: roots_getItem_def send_eq)

lemma insert_Throw:
  "\<not> invalidPartitionKeyValue k \<Longrightarrow> nextReply st = Throw e \<Longrightarrow>
     roots_executeInsertStatement st k row = (Inl e, consume st)"
  by (simp add: roots_executeInsertStatement_def send_eq)

lemma insert_existing:
  "\<not> invalidPartitionKeyValue k \<Longrightarrow> \<not> isThrow (nextReply st) \<Longrightarrow> roots st k = Some x \<Longrightarrow>
     roots_executeInsertStatement st k row =
       (Inl (DynamoDBServiceException ''DuplicateItemException''
               ''Duplicate primary key exists in table''), consume st)"
  by (cases "nextReply st") (simp_all add: roots_executeInsertStatement_def send_eq)

lemma insert_absent:
  "\<not> invalidPartitionKeyValue k \<Longrightarrow> \<not> isThrow (nextReply st) \<Longrightarrow> roots st k = None \<Longrightarrow>
     roots_executeInsertStatement st k row = (Inr (), writeRoot (consume st) k (Some row))"
  by (cases "nextReply st") (simp_all add: roots_executeInsertStatement_def send_eq)

lemma insert_Inr:
  assumes "roots_executeInsertStatement st k row = (Inr u, st1)"
  shows "\<not> invalidPartitionKeyValue k \<and> roots st k = None
         \<and> \<not> isThrow (nextReply st)
         \<and> st1 = writeRoot (consume st) k (Some row)"
  using assms
  by (cases "nextReply st")
     (auto simp: roots_executeInsertStatement_def send_eq split: if_splits option.splits)

lemma deleteItem_fails:
  "roots_deleteItem st k = (Inl e, st') \<Longrightarrow> roots st' = roots st \<and> history st' = history st"
  by (cases "nextReply st") (auto simp: roots_deleteItem_def send_eq split: if_splits)

subsection \<open>The batch operations leave the roots table alone\<close>

lemma insertChunks_frame:
  "insertChunks st k chunks = (res, st') \<Longrightarrow>
     roots st' = roots st \<and> history st' = history st \<and> clock st' = clock st"
proof (induction chunks arbitrary: st res st')
  case Nil
  then show ?case by simp
next
  case (Cons c cs)
  show ?case
  proof (cases "nextReply st")
    case (Throw e)
    with Cons.prems show ?thesis by (auto simp: send_eq)
  next
    case Respond
    with Cons.prems show ?thesis
      by (auto simp: send_eq Let_def split: prod.splits if_splits dest!: Cons.IH)
  next
    case (Leave n)
    with Cons.prems show ?thesis
      by (auto simp: send_eq Let_def split: prod.splits if_splits dest!: Cons.IH)
  next
    case Omit
    with Cons.prems show ?thesis
      by (auto simp: send_eq Let_def split: prod.splits if_splits dest!: Cons.IH)
  qed
qed

lemma batchInsert_frame:
  "proofs_batchInsertExecuteStatement st k rs = (res, st') \<Longrightarrow>
     roots st' = roots st \<and> history st' = history st \<and> clock st' = clock st"
  by (auto simp: proofs_batchInsertExecuteStatement_def split: if_splits dest: insertChunks_frame)

lemma batchDeleteLoop_Throw:
  "nextReply st = Throw e \<Longrightarrow> batchDeleteLoop st k command rc mr = (Inl e, consume st)"
  by (subst batchDeleteLoop.simps) (simp add: send_eq)

lemma batchDeleteLoop_step:
  "\<not> isThrow (nextReply st) \<Longrightarrow>
   batchDeleteLoop st k command rc mr =
     (if unprocessedOf (nextReply st) command \<noteq> [] \<and> int (rc + 1) \<le> mr
      then batchDeleteLoop (afterAttempt st k command rc) k
             (unprocessedOf (nextReply st) command) (rc + 1) mr
      else (Inr (), afterAttempt st k command rc))"
  by (subst batchDeleteLoop.simps, cases "nextReply st")
     (simp_all add: send_eq Let_def unprocessedOf_def afterAttempt_def batchWriteReply_def)

lemma afterAttempt_fields [simp]:
  "roots (afterAttempt st k command rc) = roots st"
  "history (afterAttempt st k command rc) = history st"
  "replies (afterAttempt st k command rc) = tl (replies st)"
  "clock (afterAttempt st k command rc) = clock st + 10 * 2 ^ rc"
  by (simp_all add: afterAttempt_def BatchWriteDefaultMinTimeoutMs_def
      BatchWriteDefaultExponentialFactor_def)

lemma batchDeleteLoop_frame:
  "batchDeleteLoop st k command rc mr = (res, st') \<Longrightarrow>
     roots st' = roots st \<and> history st' = history st"
proof (induction "nat (mr + 1 - int rc)" arbitrary: st command rc res st' rule: less_induct)
  case less
  show ?case
  proof (cases "isThrow (nextReply st)")
    case True
    then obtain e where "nextReply st = Throw e"
      by (cases "nextReply st") auto
    with less.prems show ?thesis
      by (auto simp: batchDeleteLoop_Throw)
  next
    case False
    note step = batchDeleteLoop_step [OF False, of k command rc mr]
    show ?thesis
    proof (cases "unprocessedOf (nextReply st) command \<noteq> [] \<and> int (rc + 1) \<le> mr")
      case True
      with step less.prems
      have rec: "batchDeleteLoop (afterAttempt st k command rc) k
                   (unprocessedOf (nextReply st) command) (rc + 1) mr = (res, st')"
        by simp
      have "nat (mr + 1 - int (rc + 1)) < nat (mr + 1 - int rc)"
        using True by simp
      from less.hyps [OF this rec] show ?thesis by simp
    next
      case False
      with step less.prems show ?thesis by auto
    qed
  qed
qed

lemma deleteChunks_frame:
  "deleteChunks st k chunks mr = (res, st') \<Longrightarrow>
     roots st' = roots st \<and> history st' = history st"
proof (induction chunks arbitrary: st res st')
  case Nil
  then show ?case by auto
next
  case (Cons c cs)
  obtain r1 st1 where l: "batchDeleteLoop st k c 0 mr = (r1, st1)"
    by (cases "batchDeleteLoop st k c 0 mr")
  from batchDeleteLoop_frame [OF l] have f1: "roots st1 = roots st" "history st1 = history st"
    by simp_all
  show ?case
  proof (cases r1)
    case (Inl e)
    with Cons.prems l f1 show ?thesis by auto
  next
    case (Inr u)
    with Cons.prems l have "deleteChunks st1 k cs mr = (res, st')" by simp
    from Cons.IH [OF this] f1 show ?thesis by simp
  qed
qed

lemma batchDeleteWrite_frame:
  "proofs_batchDeleteWrite st k keys mr = (res, st') \<Longrightarrow>
     roots st' = roots st \<and> history st' = history st"
  by (auto simp: proofs_batchDeleteWrite_def split: if_splits sum.splits
           dest: deleteChunks_frame)

lemma paginatedQuery_frame:
  "proofs_paginatedQuery st k = (res, st') \<Longrightarrow>
     roots st' = roots st \<and> history st' = history st \<and> proofs st' = proofs st"
  by (cases "nextReply st")
     (auto simp: proofs_paginatedQuery_def send_eq split: if_splits)

lemma deleteProofsAndRoot_fails:
  assumes "deleteProofsAndRoot st k = (Inl e, st')"
  shows "roots st' = roots st \<and> history st' = history st"
proof -
  obtain r1 s1 where q: "proofs_paginatedQuery st k = (r1, s1)"
    by (cases "proofs_paginatedQuery st k")
  note f1 = paginatedQuery_frame [OF q]
  show ?thesis
  proof (cases r1)
    case (Inl a)
    with assms q f1 show ?thesis by (auto simp: deleteProofsAndRoot_def)
  next
    case (Inr items)
    obtain r2 s2 where b: "proofs_batchDeleteWrite s1 k (map (\<lambda>(n, item). WhitelistAddress item) items)
                             BatchWriteDefaultMaxRetries = (r2, s2)"
      by (cases "proofs_batchDeleteWrite s1 k (map (\<lambda>(n, item). WhitelistAddress item) items)
                             BatchWriteDefaultMaxRetries")
    note f2 = batchDeleteWrite_frame [OF b]
    show ?thesis
    proof (cases r2)
      case (Inl a)
      with assms q b Inr f1 f2 show ?thesis by (auto simp: deleteProofsAndRoot_def)
    next
      case r2: (Inr u)
      with assms q b Inr have "roots_deleteItem s2 k = (Inl e, st')"
        by (simp add: deleteProofsAndRoot_def)
      from deleteItem_fails [OF this] f1 f2 show ?thesis by simp
    qed
  qed
qed

section \<open>A call run alone is the function of the data service\<close>

lemma steps_Returned [simp]: "steps k st (Returned res) = (Returned res, st)"
  by (induction k) simp_all

lemma create_steps:
  "steps 3 st (CreateInsert n r ps) =
     (Returned (fst (data_createMerkleTree st n r ps)), snd (data_createMerkleTree st n r ps))"
  by (simp add: numeral_3_eq_3 data_createMerkleTree_def split: prod.splits sum.splits)

lemma delete_steps:
  "steps 6 st (DeleteRead n) =
     (Returned (fst (data_deleteMerkleTree st n)), snd (data_deleteMerkleTree st n))"
  by (simp add: eval_nat_numeral data_deleteMerkleTree_def deleteProofsAndRoot_def Let_def
           split: prod.splits sum.splits option.splits)

lemma creating_iff:
  "holds (creatingCondition r) cur = (cur = Some \<lparr>MerkleRoot = r, WhitelistStatus = Creating\<rparr>)"
  by (cases cur) (auto simp: creatingCondition_def)

lemma deleting_iff:
  "holds (deletingCondition r) cur = (cur = Some \<lparr>MerkleRoot = r, WhitelistStatus = Deleting\<rparr>)"
  by (cases cur) (auto simp: deletingCondition_def)

lemma deletable_iff:
  "holds (deletableCondition r) cur =
     (cur = Some \<lparr>MerkleRoot = r, WhitelistStatus = Completed\<rparr>
      \<or> cur = Some \<lparr>MerkleRoot = r, WhitelistStatus = Failed\<rparr>)"
  by (cases cur) (auto simp: deletableCondition_def)

text \<open>
  The two compensating puts, resumed at any store: the put is carried out exactly when
  the provider answers it and the row is the one the condition names; otherwise the row
  is left as it is, and the exception of the put is what the call returns.
\<close>

lemma resume_CreateCompensate_cases:
  assumes valid: "\<not> invalidPartitionKeyValue n"
  shows "(\<not> isThrow (nextReply s)
            \<and> roots s n = Some \<lparr>MerkleRoot = r, WhitelistStatus = Creating\<rparr> \<longrightarrow>
          resume s (CreateCompensate n r err) =
            (Returned (Inl (rethrow err)),
             writeRoot (consume s) n (Some \<lparr>MerkleRoot = r, WhitelistStatus = Failed\<rparr>)))
       \<and> (\<not> isThrow (nextReply s)
            \<and> roots s n \<noteq> Some \<lparr>MerkleRoot = r, WhitelistStatus = Creating\<rparr> \<longrightarrow>
          resume s (CreateCompensate n r err) =
            (Returned (Inl (DynamoDBServiceException ''ConditionalCheckFailedException''
                              ''The conditional request failed'')), consume s))
       \<and> (\<forall>putErr. nextReply s = Throw putErr \<longrightarrow>
            resume s (CreateCompensate n r err) = (Returned (Inl putErr), consume s))"
proof (intro conjI impI allI)
  assume "\<not> isThrow (nextReply s)
            \<and> roots s n = Some \<lparr>MerkleRoot = r, WhitelistStatus = Creating\<rparr>"
  then have a: "\<not> isThrow (nextReply s)" and h: "holds (creatingCondition r) (roots s n)"
    by (simp_all add: creating_iff)
  from roots_putItem_holds [OF valid a h]
  show "resume s (CreateCompensate n r err) =
            (Returned (Inl (rethrow err)),
             writeRoot (consume s) n (Some \<lparr>MerkleRoot = r, WhitelistStatus = Failed\<rparr>))"
    by simp
next
  assume "\<not> isThrow (nextReply s)
            \<and> roots s n \<noteq> Some \<lparr>MerkleRoot = r, WhitelistStatus = Creating\<rparr>"
  then have a: "\<not> isThrow (nextReply s)" and h: "\<not> holds (creatingCondition r) (roots s n)"
    by (simp_all add: creating_iff)
  from roots_putItem_refused [OF valid a h]
  show "resume s (CreateCompensate n r err) =
            (Returned (Inl (DynamoDBServiceException ''ConditionalCheckFailedException''
                              ''The conditional request failed'')), consume s)"
    by simp
next
  fix putErr
  assume "nextReply s = Throw putErr"
  from roots_putItem_Throw [OF valid this]
  show "resume s (CreateCompensate n r err) = (Returned (Inl putErr), consume s)"
    by simp
qed

lemma resume_DeleteCompensate_cases:
  assumes valid: "\<not> invalidPartitionKeyValue n"
  shows "(\<not> isThrow (nextReply s)
            \<and> roots s n = Some \<lparr>MerkleRoot = r, WhitelistStatus = Deleting\<rparr> \<longrightarrow>
          resume s (DeleteCompensate n r err) =
            (Returned (Inl (rethrow err)),
             writeRoot (consume s) n (Some \<lparr>MerkleRoot = r, WhitelistStatus = Failed\<rparr>)))
       \<and> (\<not> isThrow (nextReply s)
            \<and> roots s n \<noteq> Some \<lparr>MerkleRoot = r, WhitelistStatus = Deleting\<rparr> \<longrightarrow>
          resume s (DeleteCompensate n r err) =
            (Returned (Inl (DynamoDBServiceException ''ConditionalCheckFailedException''
                              ''The conditional request failed'')), consume s))
       \<and> (\<forall>putErr. nextReply s = Throw putErr \<longrightarrow>
            resume s (DeleteCompensate n r err) = (Returned (Inl putErr), consume s))"
proof (intro conjI impI allI)
  assume "\<not> isThrow (nextReply s)
            \<and> roots s n = Some \<lparr>MerkleRoot = r, WhitelistStatus = Deleting\<rparr>"
  then have a: "\<not> isThrow (nextReply s)" and h: "holds (deletingCondition r) (roots s n)"
    by (simp_all add: deleting_iff)
  from roots_putItem_holds [OF valid a h]
  show "resume s (DeleteCompensate n r err) =
            (Returned (Inl (rethrow err)),
             writeRoot (consume s) n (Some \<lparr>MerkleRoot = r, WhitelistStatus = Failed\<rparr>))"
    by simp
next
  assume "\<not> isThrow (nextReply s)
            \<and> roots s n \<noteq> Some \<lparr>MerkleRoot = r, WhitelistStatus = Deleting\<rparr>"
  then have a: "\<not> isThrow (nextReply s)" and h: "\<not> holds (deletingCondition r) (roots s n)"
    by (simp_all add: deleting_iff)
  from roots_putItem_refused [OF valid a h]
  show "resume s (DeleteCompensate n r err) =
            (Returned (Inl (DynamoDBServiceException ''ConditionalCheckFailedException''
                              ''The conditional request failed'')), consume s)"
    by simp
next
  fix putErr
  assume "nextReply s = Throw putErr"
  from roots_putItem_Throw [OF valid this]
  show "resume s (DeleteCompensate n r err) = (Returned (Inl putErr), consume s)"
    by simp
qed

text \<open>The put of COMPLETED, resumed at any store.\<close>

lemma resume_CreateComplete_cases:
  assumes valid: "\<not> invalidPartitionKeyValue n"
  shows "(\<not> isThrow (nextReply s)
            \<and> roots s n = Some \<lparr>MerkleRoot = r, WhitelistStatus = Creating\<rparr> \<longrightarrow>
          resume s (CreateComplete n r) =
            (Returned (Inr ()),
             writeRoot (consume s) n (Some \<lparr>MerkleRoot = r, WhitelistStatus = Completed\<rparr>)))
       \<and> (\<not> isThrow (nextReply s)
            \<and> roots s n \<noteq> Some \<lparr>MerkleRoot = r, WhitelistStatus = Creating\<rparr> \<longrightarrow>
          resume s (CreateComplete n r) =
            (Returned (Inl (NoSqlError ''ConditionalCheckFailedException''
                              ''The conditional request failed'')), consume s))"
proof (intro conjI impI)
  assume "\<not> isThrow (nextReply s)
            \<and> roots s n = Some \<lparr>MerkleRoot = r, WhitelistStatus = Creating\<rparr>"
  then have a: "\<not> isThrow (nextReply s)" and h: "holds (creatingCondition r) (roots s n)"
    by (simp_all add: creating_iff)
  from roots_putItem_holds [OF valid a h]
  show "resume s (CreateComplete n r) =
            (Returned (Inr ()),
             writeRoot (consume s) n (Some \<lparr>MerkleRoot = r, WhitelistStatus = Completed\<rparr>))"
    by simp
next
  assume "\<not> isThrow (nextReply s)
            \<and> roots s n \<noteq> Some \<lparr>MerkleRoot = r, WhitelistStatus = Creating\<rparr>"
  then have a: "\<not> isThrow (nextReply s)" and h: "\<not> holds (creatingCondition r) (roots s n)"
    by (simp_all add: creating_iff)
  from roots_putItem_refused [OF valid a h]
  show "resume s (CreateComplete n r) =
            (Returned (Inl (NoSqlError ''ConditionalCheckFailedException''
                              ''The conditional request failed'')), consume s)"
    by simp
qed

text \<open>The put of DELETING, resumed at any store.\<close>

lemma resume_DeleteFlip_cases:
  assumes valid: "\<not> invalidPartitionKeyValue n"
  shows "(\<not> isThrow (nextReply s)
            \<and> (roots s n = Some \<lparr>MerkleRoot = r, WhitelistStatus = Completed\<rparr>
                \<or> roots s n = Some \<lparr>MerkleRoot = r, WhitelistStatus = Failed\<rparr>) \<longrightarrow>
          resume s (DeleteFlip n r) =
            (DeleteQuery n r,
             writeRoot (consume s) n (Some \<lparr>MerkleRoot = r, WhitelistStatus = Deleting\<rparr>)))
       \<and> (\<not> isThrow (nextReply s)
            \<and> roots s n \<noteq> Some \<lparr>MerkleRoot = r, WhitelistStatus = Completed\<rparr>
            \<and> roots s n \<noteq> Some \<lparr>MerkleRoot = r, WhitelistStatus = Failed\<rparr> \<longrightarrow>
          resume s (DeleteFlip n r) =
            (Returned (Inl (NoSqlError ''ConditionalCheckFailedException''
                              ''The conditional request failed'')), consume s))"
proof (intro conjI impI)
  assume "\<not> isThrow (nextReply s)
            \<and> (roots s n = Some \<lparr>MerkleRoot = r, WhitelistStatus = Completed\<rparr>
                \<or> roots s n = Some \<lparr>MerkleRoot = r, WhitelistStatus = Failed\<rparr>)"
  then have a: "\<not> isThrow (nextReply s)" and h: "holds (deletableCondition r) (roots s n)"
    by (simp_all add: deletable_iff)
  from roots_putItem_holds [OF valid a h]
  show "resume s (DeleteFlip n r) =
            (DeleteQuery n r,
             writeRoot (consume s) n (Some \<lparr>MerkleRoot = r, WhitelistStatus = Deleting\<rparr>))"
    by simp
next
  assume "\<not> isThrow (nextReply s)
            \<and> roots s n \<noteq> Some \<lparr>MerkleRoot = r, WhitelistStatus = Completed\<rparr>
            \<and> roots s n \<noteq> Some \<lparr>MerkleRoot = r, WhitelistStatus = Failed\<rparr>"
  then have a: "\<not> isThrow (nextReply s)" and h: "\<not> holds (deletableCondition r) (roots s n)"
    by (simp_all add: deletable_iff)
  from roots_putItem_refused [OF valid a h]
  show "resume s (DeleteFlip n r) =
            (Returned (Inl (NoSqlError ''ConditionalCheckFailedException''
                              ''The conditional request failed'')), consume s)"
    by simp
qed

section \<open>The initial insert of CreateTree\<close>

text \<open>
  Claim C2, as amended. When a roots row already exists for the whitelist name,
  \<^verbatim>\<open>createMerkleTree\<close> of the data service fails and leaves the roots table, the proofs
  table and the history of writes as they were. The failure that reaches the caller is
  the one the provider raised for the insert statement, wrapped under its own name:
  when the provider answers the statement, that is DuplicateItemException (not
  ConditionalCheckFailedException).
\<close>

theorem C2_insert_only:
  assumes "roots st whitelistName = Some row"
  shows "\<exists>e. fst (data_createMerkleTree st whitelistName merkleRoot ps) = Inl e
           \<and> roots (snd (data_createMerkleTree st whitelistName merkleRoot ps)) = roots st
           \<and> proofs (snd (data_createMerkleTree st whitelistName merkleRoot ps)) = proofs st
           \<and> history (snd (data_createMerkleTree st whitelistName merkleRoot ps)) = history st
           \<and> (\<not> invalidPartitionKeyValue whitelistName \<and> \<not> isThrow (nextReply st) \<longrightarrow>
                e = NoSqlError ''DuplicateItemException''
                      ''Duplicate primary key exists in table'')"
proof (cases "invalidPartitionKeyValue whitelistName")
  case True
  then show ?thesis
    by (simp add: data_createMerkleTree_def invalidKey_unfold)
next
  case False
  show ?thesis
  proof (cases "isThrow (nextReply st)")
    case True
    then obtain x where "nextReply st = Throw x" using isThrow_cases by blast
    with False show ?thesis
      using insert_Throw [of whitelistName st x]
      by (simp add: data_createMerkleTree_def invalidKey_unfold)
  next
    case nt: False
    with False assms show ?thesis
      using insert_existing [of whitelistName st row]
      by (simp add: data_createMerkleTree_def invalidKey_unfold)
  qed
qed

theorem C2_insert_only_witness:
  "roots completedStore ''w0'' = Some \<lparr>MerkleRoot = ''0x01'', WhitelistStatus = Completed\<rparr>
   \<and> \<not> invalidPartitionKeyValue ''w0'' \<and> \<not> isThrow (nextReply completedStore)
   \<and> fst (data_createMerkleTree completedStore ''w0'' ''0x02'' [exampleProof])
       = Inl (NoSqlError ''DuplicateItemException'' ''Duplicate primary key exists in table'')
   \<and> roots (snd (data_createMerkleTree completedStore ''w0'' ''0x02'' [exampleProof]))
       = roots completedStore"
proof -
  have row: "roots completedStore ''w0''
               = Some \<lparr>MerkleRoot = ''0x01'', WhitelistStatus = Completed\<rparr>"
    by (simp add: completedStore_def emptyStore_def)
  have ok: "\<not> invalidPartitionKeyValue ''w0'' \<and> \<not> isThrow (nextReply completedStore)"
    by (simp add: invalidPartitionKeyValue_def ValidPartitionKeyValueMinLen_def
        ValidPartitionKeyValueMaxLen_def nextReply_def completedStore_def emptyStore_def)
  from C2_insert_only [OF row, of "''0x02''" "[exampleProof]"] row ok show ?thesis
    by auto
qed

text \<open>
  The claim as stated fails: on a store whose roots row for w0 exists, the failure of
  CreateTree carries the name DuplicateItemException.
\<close>

theorem C2_insert_only_counterexample:
  "fst (data_createMerkleTree completedStore ''w0'' ''0x02'' [exampleProof])
     = Inl (NoSqlError ''DuplicateItemException'' ''Duplicate primary key exists in table'')
   \<and> errorCode (NoSqlError ''DuplicateItemException'' ''Duplicate primary key exists in table'')
       \<noteq> Some ''ConditionalCheckFailedException''"
  by code_simp

section \<open>The compensating write of CreateTree\<close>

lemma create_bulk_failure:
  assumes ins: "roots_executeInsertStatement st whitelistName
                  \<lparr>MerkleRoot = merkleRoot, WhitelistStatus = Creating\<rparr> = (Inr (), st1)"
      and bulk: "proofs_batchInsertExecuteStatement st1 whitelistName ps = (Inl err, st2)"
  shows "roots st2 whitelistName = Some \<lparr>MerkleRoot = merkleRoot, WhitelistStatus = Creating\<rparr>
         \<and> (\<not> isThrow (nextReply st2) \<longrightarrow>
              data_createMerkleTree st whitelistName merkleRoot ps =
                (Inl (rethrow err),
                 writeRoot (consume st2) whitelistName
                   (Some \<lparr>MerkleRoot = merkleRoot, WhitelistStatus = Failed\<rparr>)))
         \<and> (\<forall>putErr. nextReply st2 = Throw putErr \<longrightarrow>
              data_createMerkleTree st whitelistName merkleRoot ps = (Inl putErr, consume st2))"
proof -
  from insert_Inr [OF ins]
  have valid: "\<not> invalidPartitionKeyValue whitelistName"
    and st1: "st1 = writeRoot (consume st) whitelistName
                      (Some \<lparr>MerkleRoot = merkleRoot, WhitelistStatus = Creating\<rparr>)"
    by simp_all
  from batchInsert_frame [OF bulk] st1
  have row: "roots st2 whitelistName = Some \<lparr>MerkleRoot = merkleRoot, WhitelistStatus = Creating\<rparr>"
    by simp
  then have cond: "holds (creatingCondition merkleRoot) (roots st2 whitelistName)"
    by (simp add: creatingCondition_def)
  have ok: "data_createMerkleTree st whitelistName merkleRoot ps =
                (Inl (rethrow err),
                 writeRoot (consume st2) whitelistName
                   (Some \<lparr>MerkleRoot = merkleRoot, WhitelistStatus = Failed\<rparr>))"
    if "\<not> isThrow (nextReply st2)"
    using valid ins bulk roots_putItem_holds [OF valid that cond]
    by (simp add: data_createMerkleTree_def invalidKey_unfold)
  have bad: "data_createMerkleTree st whitelistName merkleRoot ps = (Inl putErr, consume st2)"
    if "nextReply st2 = Throw putErr" for putErr
    using valid ins bulk roots_putItem_Throw [OF valid that]
    by (simp add: data_createMerkleTree_def invalidKey_unfold)
  from row ok bad show ?thesis by blast
qed

text \<open>
  Claim C3, as amended. Let the initial insert succeed and the bulk insert of the proof
  rows fail with \<open>err\<close>, whatever the failure. The call then stands in the \<^verbatim>\<open>catch\<close> block
  with \<open>err\<close>, about to await the compensating put of (root, FAILED), which carries the
  condition MerkleRoot = root AND WhitelistStatus = CREATING and the same root. At
  whatever store \<open>s\<close> the call is resumed there:
  \<^item> when the provider answers the put and the row is (root, CREATING), the row becomes
    (root, FAILED) and the call returns the bulk-insert failure, wrapped as the
    \<^verbatim>\<open>catch\<close> block wraps it;
  \<^item> when the provider answers the put and the row is anything else, the put is refused
    with ConditionalCheckFailedException, the table is left as it is, and that
    exception, unwrapped, is what the call returns;
  \<^item> when the put itself raises, the call returns the put's exception, unwrapped, and the
    table is left as it is.
  The call resumed three times with nothing in between is \<^verbatim>\<open>createMerkleTree\<close> of the data
  service; run so, the row still is (root, CREATING) at the compensating put, hence the
  call returns the wrapped bulk-insert failure with the row in (root, FAILED) when the
  provider answers the put, and the put's own exception with the row in (root, CREATING)
  when the put raises.
\<close>

theorem C3_compensating_put:
  assumes ins: "roots_executeInsertStatement st whitelistName
                  \<lparr>MerkleRoot = merkleRoot, WhitelistStatus = Creating\<rparr> = (Inr (), st1)"
      and bulk: "proofs_batchInsertExecuteStatement st1 whitelistName ps = (Inl err, st2)"
  shows "resume st (CreateInsert whitelistName merkleRoot ps)
           = (CreateProofs whitelistName merkleRoot ps, st1)
       \<and> resume st1 (CreateProofs whitelistName merkleRoot ps)
           = (CreateCompensate whitelistName merkleRoot err, st2)
       \<and> (\<forall>s.
            (\<not> isThrow (nextReply s)
               \<and> roots s whitelistName
                   = Some \<lparr>MerkleRoot = merkleRoot, WhitelistStatus = Creating\<rparr> \<longrightarrow>
             resume s (CreateCompensate whitelistName merkleRoot err) =
               (Returned (Inl (rethrow err)),
                writeRoot (consume s) whitelistName
                  (Some \<lparr>MerkleRoot = merkleRoot, WhitelistStatus = Failed\<rparr>)))
          \<and> (\<not> isThrow (nextReply s)
               \<and> roots s whitelistName
                   \<noteq> Some \<lparr>MerkleRoot = merkleRoot, WhitelistStatus = Creating\<rparr> \<longrightarrow>
             resume s (CreateCompensate whitelistName merkleRoot err) =
               (Returned (Inl (DynamoDBServiceException ''ConditionalCheckFailedException''
                                 ''The conditional request failed'')), consume s))
          \<and> (\<forall>putErr. nextReply s = Throw putErr \<longrightarrow>
               resume s (CreateCompensate whitelistName merkleRoot err)
                 = (Returned (Inl putErr), consume s)))
       \<and> steps 3 st (CreateInsert whitelistName merkleRoot ps)
           = (Returned (fst (data_createMerkleTree st whitelistName merkleRoot ps)),
              snd (data_createMerkleTree st whitelistName merkleRoot ps))
       \<and> roots st2 whitelistName = Some \<lparr>MerkleRoot = merkleRoot, WhitelistStatus = Creating\<rparr>
       \<and> (\<not> isThrow (nextReply st2) \<longrightarrow>
            data_createMerkleTree st whitelistName merkleRoot ps =
              (Inl (rethrow err),
               writeRoot (consume st2) whitelistName
                 (Some \<lparr>MerkleRoot = merkleRoot, WhitelistStatus = Failed\<rparr>)))
       \<and> (\<forall>putErr. nextReply st2 = Throw putErr \<longrightarrow>
            data_createMerkleTree st whitelistName merkleRoot ps = (Inl putErr, consume st2))"
proof -
  from insert_Inr [OF ins]
  have valid: "\<not> invalidPartitionKeyValue whitelistName" by simp
  have a: "resume st (CreateInsert whitelistName merkleRoot ps)
             = (CreateProofs whitelistName merkleRoot ps, st1)"
    using valid ins by (simp add: invalidKey_unfold)
  have b: "resume st1 (CreateProofs whitelistName merkleRoot ps)
             = (CreateCompensate whitelistName merkleRoot err, st2)"
    using bulk by simp
  note c = resume_CreateCompensate_cases [OF valid, of _ merkleRoot err]
  note d = create_steps [of st whitelistName merkleRoot ps]
  note e = create_bulk_failure [OF ins bulk]
  show ?thesis
    by (intro conjI allI a b d c [THEN conjunct1] c [THEN conjunct2, THEN conjunct1]
        c [THEN conjunct2, THEN conjunct2, rule_format] impI
        e [THEN conjunct1] e [THEN conjunct2, THEN conjunct1, rule_format]
        e [THEN conjunct2, THEN conjunct2, rule_format])
qed

theorem C3_compensating_put_witness:
  "fst (roots_executeInsertStatement bulkFailsStore ''w0''
          \<lparr>MerkleRoot = ''0x02'', WhitelistStatus = Creating\<rparr>) = Inr ()
   \<and> fst (proofs_batchInsertExecuteStatement
            (snd (roots_executeInsertStatement bulkFailsStore ''w0''
                    \<lparr>MerkleRoot = ''0x02'', WhitelistStatus = Creating\<rparr>))
            ''w0'' [exampleProof]) = Inl bulkFailure
   \<and> fst (data_createMerkleTree bulkFailsStore ''w0'' ''0x02'' [exampleProof])
       = Inl (rethrow bulkFailure)
   \<and> roots (snd (data_createMerkleTree bulkFailsStore ''w0'' ''0x02'' [exampleProof])) ''w0''
       = Some \<lparr>MerkleRoot = ''0x02'', WhitelistStatus = Failed\<rparr>
   \<and> \<not> isThrow (nextReply completedStore)
   \<and> roots completedStore ''w0'' \<noteq> Some \<lparr>MerkleRoot = ''0x02'', WhitelistStatus = Creating\<rparr>
   \<and> resume completedStore (CreateCompensate ''w0'' ''0x02'' bulkFailure)
       = (Returned (Inl (DynamoDBServiceException ''ConditionalCheckFailedException''
                           ''The conditional request failed'')), consume completedStore)"
proof -
  let ?st1 = "snd (roots_executeInsertStatement bulkFailsStore ''w0''
                     \<lparr>MerkleRoot = ''0x02'', WhitelistStatus = Creating\<rparr>)"
  let ?st2 = "snd (proofs_batchInsertExecuteStatement ?st1 ''w0'' [exampleProof])"
  have i: "fst (roots_executeInsertStatement bulkFailsStore ''w0''
                  \<lparr>MerkleRoot = ''0x02'', WhitelistStatus = Creating\<rparr>) = Inr ()"
    by code_simp
  have b: "fst (proofs_batchInsertExecuteStatement ?st1 ''w0'' [exampleProof]) = Inl bulkFailure"
    by code_simp
  have n: "\<not> isThrow (nextReply ?st2)"
    by code_simp
  have o: "\<not> isThrow (nextReply completedStore)
           \<and> roots completedStore ''w0''
               \<noteq> Some \<lparr>MerkleRoot = ''0x02'', WhitelistStatus = Creating\<rparr>"
    by (simp add: completedStore_def emptyStore_def nextReply_def)
  note t = C3_compensating_put [OF pair_with_snd [OF i] pair_with_snd [OF b]]
  note t3 = t [THEN conjunct2, THEN conjunct2, THEN conjunct1, THEN spec [of _ completedStore]]
  note refused = t3 [THEN conjunct2, THEN conjunct1, rule_format, OF o]
  note t6 = t [THEN conjunct2, THEN conjunct2, THEN conjunct2, THEN conjunct2, THEN conjunct2,
      THEN conjunct1, rule_format, OF n]
  from t6 have r: "fst (data_createMerkleTree bulkFailsStore ''w0'' ''0x02'' [exampleProof])
                     = Inl (rethrow bulkFailure)
                 \<and> roots (snd (data_createMerkleTree bulkFailsStore ''w0'' ''0x02''
                                  [exampleProof])) ''w0''
                     = Some \<lparr>MerkleRoot = ''0x02'', WhitelistStatus = Failed\<rparr>"
    by simp
  show ?thesis
    by (intro conjI i b r [THEN conjunct1] r [THEN conjunct2] o [THEN conjunct1]
        o [THEN conjunct2] refused)
qed

text \<open>
  The claim as stated fails: when the bulk insert fails and the compensating put is
  throttled, the caller receives the put's exception, and the row is left in CREATING.
\<close>

theorem C3_compensating_put_counterexample:
  "fst (data_createMerkleTree bulkAndPutFailStore ''w0'' ''0x02'' [exampleProof])
     = Inl putFailure
   \<and> putFailure \<noteq> rethrow bulkFailure \<and> putFailure \<noteq> bulkFailure
   \<and> roots (snd (data_createMerkleTree bulkAndPutFailStore ''w0'' ''0x02'' [exampleProof])) ''w0''
       = Some \<lparr>MerkleRoot = ''0x02'', WhitelistStatus = Creating\<rparr>"
  by code_simp

section \<open>DeleteTree\<close>

lemma delete_outcomes:
  assumes valid: "\<not> invalidPartitionKeyValue whitelistName"
      and read: "\<not> isThrow (nextReply st)"
  shows "((roots st whitelistName = None
           \<or> (\<exists>row. roots st whitelistName = Some row
                  \<and> (WhitelistStatus row = Creating \<or> WhitelistStatus row = Deleting)))
          \<longrightarrow> isValidation (fst (data_deleteMerkleTree st whitelistName))
              \<and> snd (data_deleteMerkleTree st whitelistName) = consume st)
       \<and> (\<forall>row st2 err st3.
             roots st whitelistName = Some row
             \<and> (WhitelistStatus row = Completed \<or> WhitelistStatus row = Failed)
             \<and> \<not> isThrow (nextReply (consume st))
             \<and> st2 = writeRoot (consume (consume st)) whitelistName
                        (Some \<lparr>MerkleRoot = MerkleRoot row, WhitelistStatus = Deleting\<rparr>)
             \<and> deleteProofsAndRoot st2 whitelistName = (Inl err, st3)
             \<longrightarrow> roots st3 whitelistName
                   = Some \<lparr>MerkleRoot = MerkleRoot row, WhitelistStatus = Deleting\<rparr>
                 \<and> (\<not> isThrow (nextReply st3) \<longrightarrow>
                      data_deleteMerkleTree st whitelistName =
                        (Inl (rethrow err),
                         writeRoot (consume st3) whitelistName
                           (Some \<lparr>MerkleRoot = MerkleRoot row, WhitelistStatus = Failed\<rparr>)))
                 \<and> (\<forall>putErr. nextReply st3 = Throw putErr \<longrightarrow>
                      data_deleteMerkleTree st whitelistName = (Inl putErr, consume st3)))"
proof -
  note get = roots_getItem_ok [OF valid read]
  have A: "isValidation (fst (data_deleteMerkleTree st whitelistName))
              \<and> snd (data_deleteMerkleTree st whitelistName) = consume st"
    if "roots st whitelistName = None
           \<or> (\<exists>row. roots st whitelistName = Some row
                  \<and> (WhitelistStatus row = Creating \<or> WhitelistStatus row = Deleting))"
    using that valid get
    by (auto simp: data_deleteMerkleTree_def invalidKey_unfold)
  have B: "roots st3 whitelistName
                   = Some \<lparr>MerkleRoot = MerkleRoot row, WhitelistStatus = Deleting\<rparr>
                 \<and> (\<not> isThrow (nextReply st3) \<longrightarrow>
                      data_deleteMerkleTree st whitelistName =
                        (Inl (rethrow err),
                         writeRoot (consume st3) whitelistName
                           (Some \<lparr>MerkleRoot = MerkleRoot row, WhitelistStatus = Failed\<rparr>)))
                 \<and> (\<forall>putErr. nextReply st3 = Throw putErr \<longrightarrow>
                      data_deleteMerkleTree st whitelistName = (Inl putErr, consume st3))"
    if row: "roots st whitelistName = Some row"
      and status: "WhitelistStatus row = Completed \<or> WhitelistStatus row = Failed"
      and put: "\<not> isThrow (nextReply (consume st))"
      and st2: "st2 = writeRoot (consume (consume st)) whitelistName
                        (Some \<lparr>MerkleRoot = MerkleRoot row, WhitelistStatus = Deleting\<rparr>)"
      and del: "deleteProofsAndRoot st2 whitelistName = (Inl err, st3)"
    for row st2 err st3
  proof -
    have c1: "holds (deletableCondition (MerkleRoot row)) (roots (consume st) whitelistName)"
      using row status by (auto simp: deletableCondition_def)
    note put1 = roots_putItem_holds [OF valid put c1,
        of "\<lparr>MerkleRoot = MerkleRoot row, WhitelistStatus = Deleting\<rparr>"]
    from deleteProofsAndRoot_fails [OF del] st2
    have r3: "roots st3 whitelistName
                = Some \<lparr>MerkleRoot = MerkleRoot row, WhitelistStatus = Deleting\<rparr>"
      by simp
    then have c3: "holds (deletingCondition (MerkleRoot row)) (roots st3 whitelistName)"
      by (simp add: deletingCondition_def)
    have pre: "data_deleteMerkleTree st whitelistName =
          (case roots_putItem st3 whitelistName
                  \<lparr>MerkleRoot = MerkleRoot row, WhitelistStatus = Failed\<rparr>
                  (Some (deletingCondition (MerkleRoot row))) of
             (Inl putErr, st4) \<Rightarrow> (Inl putErr, st4)
           | (Inr u, st4) \<Rightarrow> (Inl (rethrow err), st4))"
      using valid get row status put1 del st2
      by (auto simp: data_deleteMerkleTree_def invalidKey_unfold)
    have ok: "data_deleteMerkleTree st whitelistName =
                        (Inl (rethrow err),
                         writeRoot (consume st3) whitelistName
                           (Some \<lparr>MerkleRoot = MerkleRoot row, WhitelistStatus = Failed\<rparr>))"
      if "\<not> isThrow (nextReply st3)"
      using pre roots_putItem_holds [OF valid that c3] by simp
    have bad: "data_deleteMerkleTree st whitelistName = (Inl putErr, consume st3)"
      if "nextReply st3 = Throw putErr" for putErr
      using pre roots_putItem_Throw [OF valid that] by simp
    from r3 ok bad show ?thesis by blast
  qed
  from A B show ?thesis by blast
qed

text \<open>
  Claim C8, as amended. \<^verbatim>\<open>deleteMerkleTree\<close> of the data service first reads the roots
  row. When the provider answers that read and the row is absent, or its status is
  CREATING or DELETING, the call fails with a validation error and nothing but the
  answered request has changed. When the status is COMPLETED or FAILED the call goes on
  to the put of (root, DELETING), with the root it has read and under the condition
  MerkleRoot = root AND (WhitelistStatus = COMPLETED OR WhitelistStatus = FAILED): at
  whatever store the call is resumed, an answered put is carried out when the row is
  (root, COMPLETED) or (root, FAILED) and is refused with ConditionalCheckFailedException
  otherwise. Every failure of the three later steps (the query of the proof rows, their
  bulk delete, the delete of the roots row) takes the call, with its error \<open>err\<close>, to
  the compensating put of (root, FAILED), which carries the condition MerkleRoot = root
  AND WhitelistStatus = DELETING. At whatever store \<open>s\<close> the call is resumed there:
  \<^item> when the provider answers the put and the row is (root, DELETING), the row becomes
    (root, FAILED) and the call returns \<open>err\<close>, wrapped as the \<^verbatim>\<open>catch\<close> block wraps it;
  \<^item> when the provider answers the put and the row is anything else, the put is refused
    with ConditionalCheckFailedException, the table is left as it is, and that
    exception, unwrapped, is what the call returns;
  \<^item> when the put itself raises, the call returns the put's exception, unwrapped, and the
    table is left as it is.
  The call resumed six times with nothing in between is \<^verbatim>\<open>deleteMerkleTree\<close> of the data
  service; run so, once the put of DELETING has succeeded and a later step has failed
  with \<open>err\<close>, the row still is (root, DELETING) at the compensating put, hence the call
  returns the wrapped \<open>err\<close> with the row in (root, FAILED) when the provider answers the
  put, and the put's own exception with the row in (root, DELETING) when the put raises.
\<close>

theorem C8_delete_tree:
  assumes valid: "\<not> invalidPartitionKeyValue whitelistName"
      and read: "\<not> isThrow (nextReply st)"
  shows "((roots st whitelistName = None
           \<or> (\<exists>row. roots st whitelistName = Some row
                  \<and> (WhitelistStatus row = Creating \<or> WhitelistStatus row = Deleting)))
          \<longrightarrow> isValidation (fst (data_deleteMerkleTree st whitelistName))
              \<and> snd (data_deleteMerkleTree st whitelistName) = consume st)
       \<and> (\<forall>row st2 err st3.
             roots st whitelistName = Some row
             \<and> (WhitelistStatus row = Completed \<or> WhitelistStatus row = Failed)
             \<and> \<not> isThrow (nextReply (consume st))
             \<and> st2 = writeRoot (consume (consume st)) whitelistName
                        (Some \<lparr>MerkleRoot = MerkleRoot row, WhitelistStatus = Deleting\<rparr>)
             \<and> deleteProofsAndRoot st2 whitelistName = (Inl err, st3)
             \<longrightarrow> roots st3 whitelistName
                   = Some \<lparr>MerkleRoot = MerkleRoot row, WhitelistStatus = Deleting\<rparr>
                 \<and> (\<not> isThrow (nextReply st3) \<longrightarrow>
                      data_deleteMerkleTree st whitelistName =
                        (Inl (rethrow err),
                         writeRoot (consume st3) whitelistName
                           (Some \<lparr>MerkleRoot = MerkleRoot row, WhitelistStatus = Failed\<rparr>)))
                 \<and> (\<forall>putErr. nextReply st3 = Throw putErr \<longrightarrow>
                      data_deleteMerkleTree st whitelistName = (Inl putErr, consume st3)))
       \<and> steps 6 st (DeleteRead whitelistName)
           = (Returned (fst (data_deleteMerkleTree st whitelistName)),
              snd (data_deleteMerkleTree st whitelistName))
       \<and> (\<forall>row. roots st whitelistName = Some row
                 \<and> (WhitelistStatus row = Completed \<or> WhitelistStatus row = Failed) \<longrightarrow>
             resume st (DeleteRead whitelistName)
               = (DeleteFlip whitelistName (MerkleRoot row), consume st))
       \<and> (\<forall>s r.
            (\<not> isThrow (nextReply s)
               \<and> (roots s whitelistName = Some \<lparr>MerkleRoot = r, WhitelistStatus = Completed\<rparr>
                   \<or> roots s whitelistName = Some \<lparr>MerkleRoot = r, WhitelistStatus = Failed\<rparr>)
             \<longrightarrow> resume s (DeleteFlip whitelistName r) =
                   (DeleteQuery whitelistName r,
                    writeRoot (consume s) whitelistName
                      (Some \<lparr>MerkleRoot = r, WhitelistStatus = Deleting\<rparr>)))
          \<and> (\<not> isThrow (nextReply s)
               \<and> roots s whitelistName \<noteq> Some \<lparr>MerkleRoot = r, WhitelistStatus = Completed\<rparr>
               \<and> roots s whitelistName \<noteq> Some \<lparr>MerkleRoot = r, WhitelistStatus = Failed\<rparr>
             \<longrightarrow> resume s (DeleteFlip whitelistName r) =
                   (Returned (Inl (NoSqlError ''ConditionalCheckFailedException''
                                     ''The conditional request failed'')), consume s)))
       \<and> (\<forall>s r err s'.
            (proofs_paginatedQuery s whitelistName = (Inl err, s') \<longrightarrow>
               resume s (DeleteQuery whitelistName r) = (DeleteCompensate whitelistName r err, s'))
          \<and> (\<forall>deleteSortKeys.
                proofs_batchDeleteWrite s whitelistName deleteSortKeys BatchWriteDefaultMaxRetries
                  = (Inl err, s') \<longrightarrow>
                resume s (DeleteProofs whitelistName r deleteSortKeys)
                  = (DeleteCompensate whitelistName r err, s'))
          \<and> (roots_deleteItem s whitelistName = (Inl err, s') \<longrightarrow>
               resume s (DeleteRoot whitelistName r) = (DeleteCompensate whitelistName r err, s')))
       \<and> (\<forall>s r err.
            (\<not> isThrow (nextReply s)
               \<and> roots s whitelistName = Some \<lparr>MerkleRoot = r, WhitelistStatus = Deleting\<rparr> \<longrightarrow>
             resume s (DeleteCompensate whitelistName r err) =
               (Returned (Inl (rethrow err)),
                writeRoot (consume s) whitelistName
                  (Some \<lparr>MerkleRoot = r, WhitelistStatus = Failed\<rparr>)))
          \<and> (\<not> isThrow (nextReply s)
               \<and> roots s whitelistName \<noteq> Some \<lparr>MerkleRoot = r, WhitelistStatus = Deleting\<rparr> \<longrightarrow>
             resume s (DeleteCompensate whitelistName r err) =
               (Returned (Inl (DynamoDBServiceException ''ConditionalCheckFailedException''
                                 ''The conditional request failed'')), consume s))
          \<and> (\<forall>putErr. nextReply s = Throw putErr \<longrightarrow>
               resume s (DeleteCompensate whitelistName r err)
                 = (Returned (Inl putErr), consume s)))"
proof -
  note old = delete_outcomes [OF valid read]
  note p1 = old [THEN conjunct1] and p2 = old [THEN conjunct2]
  note p3 = delete_steps [of st whitelistName]
  have p4: "\<forall>row. roots st whitelistName = Some row
                 \<and> (WhitelistStatus row = Completed \<or> WhitelistStatus row = Failed) \<longrightarrow>
             resume st (DeleteRead whitelistName)
               = (DeleteFlip whitelistName (MerkleRoot row), consume st)"
    using valid roots_getItem_ok [OF valid read]
    by (auto simp: invalidKey_unfold)
  have p5: "\<forall>s r.
            (\<not> isThrow (nextReply s)
               \<and> (roots s whitelistName = Some \<lparr>MerkleRoot = r, WhitelistStatus = Completed\<rparr>
                   \<or> roots s whitelistName = Some \<lparr>MerkleRoot = r, WhitelistStatus = Failed\<rparr>)
             \<longrightarrow> resume s (DeleteFlip whitelistName r) =
                   (DeleteQuery whitelistName r,
                    writeRoot (consume s) whitelistName
                      (Some \<lparr>MerkleRoot = r, WhitelistStatus = Deleting\<rparr>)))
          \<and> (\<not> isThrow (nextReply s)
               \<and> roots s whitelistName \<noteq> Some \<lparr>MerkleRoot = r, WhitelistStatus = Completed\<rparr>
               \<and> roots s whitelistName \<noteq> Some \<lparr>MerkleRoot = r, WhitelistStatus = Failed\<rparr>
             \<longrightarrow> resume s (DeleteFlip whitelistName r) =
                   (Returned (Inl (NoSqlError ''ConditionalCheckFailedException''
                                     ''The conditional request failed'')), consume s))"
    by (intro allI) (rule resume_DeleteFlip_cases [OF valid])
  have p6: "\<forall>s r err s'.
            (proofs_paginatedQuery s whitelistName = (Inl err, s') \<longrightarrow>
               resume s (DeleteQuery whitelistName r) = (DeleteCompensate whitelistName r err, s'))
          \<and> (\<forall>deleteSortKeys.
                proofs_batchDeleteWrite s whitelistName deleteSortKeys BatchWriteDefaultMaxRetries
                  = (Inl err, s') \<longrightarrow>
                resume s (DeleteProofs whitelistName r deleteSortKeys)
                  = (DeleteCompensate whitelistName r err, s'))
          \<and> (roots_deleteItem s whitelistName = (Inl err, s') \<longrightarrow>
               resume s (DeleteRoot whitelistName r) = (DeleteCompensate whitelistName r err, s'))"
    by simp
  have p7: "\<forall>s r err.
            (\<not> isThrow (nextReply s)
               \<and> roots s whitelistName = Some \<lparr>MerkleRoot = r, WhitelistStatus = Deleting\<rparr> \<longrightarrow>
             resume s (DeleteCompensate whitelistName r err) =
               (Returned (Inl (rethrow err)),
                writeRoot (consume s) whitelistName
                  (Some \<lparr>MerkleRoot = r, WhitelistStatus = Failed\<rparr>)))
          \<and> (\<not> isThrow (nextReply s)
               \<and> roots s whitelistName \<noteq> Some \<lparr>MerkleRoot = r, WhitelistStatus = Deleting\<rparr> \<longrightarrow>
             resume s (DeleteCompensate whitelistName r err) =
               (Returned (Inl (DynamoDBServiceException ''ConditionalCheckFailedException''
                                 ''The conditional request failed'')), consume s))
          \<and> (\<forall>putErr. nextReply s = Throw putErr \<longrightarrow>
               resume s (DeleteCompensate whitelistName r err)
                 = (Returned (Inl putErr), consume s))"
    by (intro allI) (rule resume_DeleteCompensate_cases [OF valid])
  show ?thesis
    by (intro conjI) (rule p1 p2 p3 p4 p5 p6 p7)+
qed

theorem C8_delete_tree_witness:
  "\<not> invalidPartitionKeyValue ''w0'' \<and> \<not> isThrow (nextReply queryFailsStore)
   \<and> \<not> isThrow (nextReply emptyStore) \<and> roots emptyStore ''w0'' = None
   \<and> isValidation (fst (data_deleteMerkleTree emptyStore ''w0''))
   \<and> roots queryFailsStore ''w0'' = Some \<lparr>MerkleRoot = ''0x01'', WhitelistStatus = Completed\<rparr>
   \<and> \<not> isThrow (nextReply (consume queryFailsStore))
   \<and> fst (deleteProofsAndRoot
            (writeRoot (consume (consume queryFailsStore)) ''w0''
               (Some \<lparr>MerkleRoot = ''0x01'', WhitelistStatus = Deleting\<rparr>)) ''w0'')
       = Inl queryFailure
   \<and> fst (data_deleteMerkleTree queryFailsStore ''w0'') = Inl (rethrow queryFailure)
   \<and> roots (snd (data_deleteMerkleTree queryFailsStore ''w0'')) ''w0''
       = Some \<lparr>MerkleRoot = ''0x01'', WhitelistStatus = Failed\<rparr>
   \<and> \<not> isThrow (nextReply completedStore)
   \<and> roots completedStore ''w0'' \<noteq> Some \<lparr>MerkleRoot = ''0x01'', WhitelistStatus = Deleting\<rparr>
   \<and> resume completedStore (DeleteCompensate ''w0'' ''0x01'' queryFailure)
       = (Returned (Inl (DynamoDBServiceException ''ConditionalCheckFailedException''
                           ''The conditional request failed'')), consume completedStore)"
proof -
  let ?row = "\<lparr>MerkleRoot = ''0x01'', WhitelistStatus = Completed\<rparr>"
  let ?st2 = "writeRoot (consume (consume queryFailsStore)) ''w0''
                (Some \<lparr>MerkleRoot = ''0x01'', WhitelistStatus = Deleting\<rparr>)"
  let ?st3 = "snd (deleteProofsAndRoot ?st2 ''w0'')"
  have v: "\<not> invalidPartitionKeyValue ''w0''" by code_simp
  have r: "\<not> isThrow (nextReply queryFailsStore)" by code_simp
  have r0: "\<not> isThrow (nextReply emptyStore)" by code_simp
  have a0: "roots emptyStore ''w0'' = None" by code_simp
  have row: "roots queryFailsStore ''w0'' = Some ?row" by code_simp
  have p: "\<not> isThrow (nextReply (consume queryFailsStore))" by code_simp
  have d: "fst (deleteProofsAndRoot ?st2 ''w0'') = Inl queryFailure" by code_simp
  have n: "\<not> isThrow (nextReply ?st3)" by code_simp
  have o: "\<not> isThrow (nextReply completedStore)
           \<and> roots completedStore ''w0''
               \<noteq> Some \<lparr>MerkleRoot = ''0x01'', WhitelistStatus = Deleting\<rparr>"
    by (simp add: completedStore_def emptyStore_def nextReply_def)
  from C8_delete_tree [OF v r0, THEN conjunct1] a0
  have first: "isValidation (fst (data_deleteMerkleTree emptyStore ''w0''))"
    by blast
  have prem: "roots queryFailsStore ''w0'' = Some ?row
        \<and> (WhitelistStatus ?row = Completed \<or> WhitelistStatus ?row = Failed)
        \<and> \<not> isThrow (nextReply (consume queryFailsStore))
        \<and> ?st2 = writeRoot (consume (consume queryFailsStore)) ''w0''
                    (Some \<lparr>MerkleRoot = MerkleRoot ?row, WhitelistStatus = Deleting\<rparr>)
        \<and> deleteProofsAndRoot ?st2 ''w0'' = (Inl queryFailure, ?st3)"
    using row p by (simp add: pair_with_snd [OF d, symmetric])
  from C8_delete_tree [OF v r, THEN conjunct2, THEN conjunct1, rule_format, OF prem] n
  have "data_deleteMerkleTree queryFailsStore ''w0'' =
          (Inl (rethrow queryFailure),
           writeRoot (consume ?st3) ''w0''
             (Some \<lparr>MerkleRoot = MerkleRoot ?row, WhitelistStatus = Failed\<rparr>))"
    by blast
  then have res: "fst (data_deleteMerkleTree queryFailsStore ''w0'') = Inl (rethrow queryFailure)
      \<and> roots (snd (data_deleteMerkleTree queryFailsStore ''w0'')) ''w0''
          = Some \<lparr>MerkleRoot = ''0x01'', WhitelistStatus = Failed\<rparr>"
    by simp
  note t7 = C8_delete_tree [OF v r, THEN conjunct2, THEN conjunct2, THEN conjunct2,
      THEN conjunct2, THEN conjunct2, THEN conjunct2,
      THEN spec [of _ completedStore], THEN spec [of _ "''0x01''"],
      THEN spec [of _ queryFailure]]
  note refused = t7 [THEN conjunct2, THEN conjunct1, rule_format, OF o]
  show ?thesis
    by (intro conjI v r r0 a0 first row p d res [THEN conjunct1] res [THEN conjunct2]
        o [THEN conjunct1] o [THEN conjunct2] refused)
qed

text \<open>
  The claim as stated fails: when the query of the proof rows fails and the compensating
  put is throttled, the caller receives the put's exception instead of the original
  error, and the row is left in DELETING.
\<close>

theorem C8_delete_tree_counterexample:
  "fst (data_deleteMerkleTree queryAndPutFailStore ''w0'') = Inl putFailure
   \<and> putFailure \<noteq> rethrow queryFailure \<and> putFailure \<noteq> queryFailure
   \<and> roots (snd (data_deleteMerkleTree queryAndPutFailStore ''w0'')) ''w0''
       = Some \<lparr>MerkleRoot = ''0x01'', WhitelistStatus = Deleting\<rparr>"
  by code_simp

section \<open>The input gate\<close>

lemma getAddress_0X: "take 2 a = ''0X'' \<Longrightarrow> getAddress d a = None"
proof -
  assume a: "take 2 a = ''0X''"
  then obtain r where r: "a = CHR ''0'' # CHR ''X'' # r"
    by (cases a; cases "tl a") auto
  show ?thesis
    by (simp add: getAddress_def addressRegex_def r isHexChar_def isDigitChar_def
        isLowerHexLetter_def isUpperHexLetter_def)
qed

lemma ZeroAddress_prefix: "take 2 ZeroAddress = ''0x''"
  by (simp add: ZeroAddress_def)

lemma verifyEntry_0X:
  assumes "take 2 (WhitelistEntry.WhitelistAddress e) = ''0X''"
  shows "\<exists>m. verifyEntry d i e = Inl m"
proof -
  have "WhitelistEntry.WhitelistAddress e \<noteq> ZeroAddress"
    using assms ZeroAddress_prefix by auto
  then show ?thesis
    using getAddress_0X [OF assms, of d] by (simp add: verifyEntry_def)
qed

lemma every_refuses:
  "\<exists>e\<in>set es. \<forall>i. \<exists>m. verifyEntry d i e = Inl m \<Longrightarrow> \<exists>m. every d k es = Inl m"
proof (induction es arbitrary: k)
  case Nil
  then show ?case by simp
next
  case (Cons x xs)
  show ?case
  proof (cases "verifyEntry d k x")
    case (Inl m)
    then show ?thesis by simp
  next
    case (Inr u)
    with Cons.prems have "\<exists>e\<in>set xs. \<forall>i. \<exists>m. verifyEntry d i e = Inl m"
      by (metis Inl_Inr_False set_ConsD)
    from Cons.IH [OF this, of "Suc k"] Inr show ?thesis by simp
  qed
qed

lemma inputGate_refuses:
  assumes "\<exists>e\<in>set es. \<forall>i. \<exists>m. verifyEntry d i e = Inl m"
  shows "isValidation (inputGate d es)"
proof -
  obtain m where "every d 0 es = Inl m"
    using every_refuses [OF assms] by blast
  then show ?thesis
    by (simp add: inputGate_def entryChecks_def)
qed

text \<open>
  Claim C10. An address that begins with the upper-case prefix 0X is refused by the
  canonicalisation, and it is not the zero-address constant; so \<^verbatim>\<open>getMerkleProof\<close> of
  the query service fails on it with a validation error, whatever the name and the
  store, and so does the input gate of CreateMerkleTree on every list of entries that
  holds such an address.
\<close>

theorem C10_uppercase_prefix:
  assumes "take 2 a = ''0X''"
  shows "getAddress d a = None \<and> a \<noteq> ZeroAddress
         \<and> (\<exists>m. query_getMerkleProof d st whitelistName a = (Inl (ValidationError m), st))
         \<and> (\<forall>es. (\<exists>e\<in>set es. WhitelistEntry.WhitelistAddress e = a)
                \<longrightarrow> isValidation (inputGate d es))"
proof -
  have none: "getAddress d a = None"
    by (rule getAddress_0X [OF assms])
  have nz: "a \<noteq> ZeroAddress"
    using assms ZeroAddress_prefix by auto
  have q: "\<exists>m. query_getMerkleProof d st whitelistName a = (Inl (ValidationError m), st)"
    using none nz by (simp add: query_getMerkleProof_def)
  have g: "isValidation (inputGate d es)"
    if "\<exists>e\<in>set es. WhitelistEntry.WhitelistAddress e = a" for es
  proof -
    from that obtain e where e: "e \<in> set es" "WhitelistEntry.WhitelistAddress e = a" by blast
    have "\<forall>i. \<exists>m. verifyEntry d i e = Inl m"
      using verifyEntry_0X [of e d] e(2) assms by simp
    with e(1) show ?thesis by (intro inputGate_refuses) blast
  qed
  from none nz q g show ?thesis by blast
qed

theorem C10_uppercase_prefix_witness:
  "take 2 upperPrefixAddress = ''0X''
   \<and> ValidEvmAddressRegex upperPrefixAddress
   \<and> getAddress exampleDeps upperPrefixAddress = None
   \<and> (\<exists>m. query_getMerkleProof exampleDeps completedStore ''w0'' upperPrefixAddress
             = (Inl (ValidationError m), completedStore))
   \<and> upperPrefixEntry \<in> set [exampleEntry, upperPrefixEntry]
   \<and> isValidation (inputGate exampleDeps [exampleEntry, upperPrefixEntry])"
proof -
  have h: "take 2 upperPrefixAddress = ''0X''"
    by (simp add: upperPrefixAddress_def)
  have r: "ValidEvmAddressRegex upperPrefixAddress"
    by code_simp
  have m: "\<exists>e\<in>set [exampleEntry, upperPrefixEntry].
             WhitelistEntry.WhitelistAddress e = upperPrefixAddress"
    by (simp add: upperPrefixEntry_def)
  from C10_uppercase_prefix [OF h, of exampleDeps completedStore "''w0''"] m h r
  show ?thesis by auto
qed

lemma inputGate_no_rows: "inputGate d [] = Inr []"
  by (simp add: inputGate_def entryChecks_def hasDuplicateAddresses_def)

lemma merkleBuilder_no_leaves:
  "merkleBuilder d [] = Inl (Error ''Expected non-zero number of leaves'')"
  by (simp add: merkleBuilder_def StandardMerkleTree_of_def makeMerkleTree_def)

lemma cmd_createMerkleTree_no_rows:
  assumes "\<not> invalidWhitelistName whitelistName"
      and "getObject (whitelistName @ ''.csv'') = Inr (Some content)"
      and "content \<noteq> []"
      and "parse content = Inr []"
  shows "cmd_createMerkleTree d getObject parse st whitelistName
           = (Inl (Error ''Expected non-zero number of leaves''), st)"
  using assms inputGate_no_rows [of d] merkleBuilder_no_leaves [of d]
  by (simp add: cmd_createMerkleTree_def)

lemma validName_w0: "\<not> invalidWhitelistName ''w0''"
  by code_simp

text \<open>
  Claim C4, as amended. A parsed CSV of 0 rows raises no validation error: the input
  gate accepts it, and the call then fails in the Merkle builder, whose error for an
  empty list of leaves is a plain Error that the route layer raises again. A list of
  exactly 100,000 rows passes the count gate, so that the per-row checks alone decide;
  a list of 100,001 rows fails with a validation error.
\<close>

theorem C4_count_gate:
  "inputGate d [] = Inr []
   \<and> (\<forall>getObject parse st whitelistName content.
         \<not> invalidWhitelistName whitelistName
         \<and> getObject (whitelistName @ ''.csv'') = Inr (Some content) \<and> content \<noteq> []
         \<and> parse content = Inr []
         \<longrightarrow> cmd_createMerkleTree d getObject parse st whitelistName
               = (Inl (Error ''Expected non-zero number of leaves''), st))
   \<and> (length es = 100000 \<longrightarrow> inputGate d es = entryChecks d es)
   \<and> (length es = 100001 \<longrightarrow> isValidation (inputGate d es))"
proof -
  note gate = inputGate_no_rows [of d]
  have cmd: "cmd_createMerkleTree d getObject parse st whitelistName
               = (Inl (Error ''Expected non-zero number of leaves''), st)"
    if "\<not> invalidWhitelistName whitelistName
         \<and> getObject (whitelistName @ ''.csv'') = Inr (Some content) \<and> content \<noteq> []
         \<and> parse content = Inr []"
    for getObject parse st whitelistName content
    using that cmd_createMerkleTree_no_rows [of whitelistName getObject content parse d st]
    by blast
  have pass: "inputGate d es = entryChecks d es" if "length es = 100000"
    using that by (simp add: inputGate_def ValidateWhitelistEntriesMaxCount_def)
  have over: "isValidation (inputGate d es)" if "length es = 100001"
    using that by (simp add: inputGate_def ValidateWhitelistEntriesMaxCount_def)
  from gate cmd pass over show ?thesis by blast
qed

theorem C4_count_gate_witness:
  "\<not> invalidWhitelistName ''w0''
   \<and> headerOnlyObject (''w0'' @ ''.csv'') = Inr (Some ''WhitelistAddress,WhitelistAmount'')
   \<and> parsedNoRows ''WhitelistAddress,WhitelistAmount'' = Inr []
   \<and> cmd_createMerkleTree exampleDeps headerOnlyObject parsedNoRows emptyStore ''w0''
       = (Inl (Error ''Expected non-zero number of leaves''), emptyStore)
   \<and> length (replicate 100000 exampleEntry) = 100000
   \<and> inputGate exampleDeps (replicate 100000 exampleEntry)
       = entryChecks exampleDeps (replicate 100000 exampleEntry)
   \<and> length (replicate 100001 exampleEntry) = 100001
   \<and> isValidation (inputGate exampleDeps (replicate 100001 exampleEntry))"
proof -
  note n = validName_w0
  have o: "headerOnlyObject (''w0'' @ ''.csv'') = Inr (Some ''WhitelistAddress,WhitelistAmount'')"
    by (simp add: headerOnlyObject_def)
  have p: "parsedNoRows ''WhitelistAddress,WhitelistAmount'' = Inr []"
    by (simp add: parsedNoRows_def)
  have l1: "length (replicate 100000 exampleEntry) = 100000"
    by (rule length_replicate)
  have l2: "length (replicate 100001 exampleEntry) = 100001"
    by (rule length_replicate)
  have pre: "\<not> invalidWhitelistName ''w0''
         \<and> headerOnlyObject (''w0'' @ ''.csv'') = Inr (Some ''WhitelistAddress,WhitelistAmount'')
         \<and> ''WhitelistAddress,WhitelistAmount'' \<noteq> []
         \<and> parsedNoRows ''WhitelistAddress,WhitelistAmount'' = Inr []"
    using n o p by simp
  note a = C4_count_gate [of exampleDeps "replicate 100000 exampleEntry",
      THEN conjunct2, THEN conjunct1, rule_format,
      where getObject = headerOnlyObject and parse = parsedNoRows and st = emptyStore
        and whitelistName = "''w0''" and content = "''WhitelistAddress,WhitelistAmount''",
      OF pre]
  note b = C4_count_gate [of exampleDeps "replicate 100000 exampleEntry",
      THEN conjunct2, THEN conjunct2, THEN conjunct1, rule_format, OF l1]
  note c = C4_count_gate [of exampleDeps "replicate 100001 exampleEntry",
      THEN conjunct2, THEN conjunct2, THEN conjunct2, rule_format, OF l2]
  show ?thesis
    by (intro conjI n o p a l1 b l2 c)
qed

text \<open>
  The claim as stated fails: for a CSV that holds the header line only, the call ends
  with the Merkle builder's plain Error, which is not a validation error and has no
  error code.
\<close>

theorem C4_count_gate_counterexample:
  "fst (cmd_createMerkleTree exampleDeps headerOnlyObject parsedNoRows emptyStore ''w0'')
     = Inl (Error ''Expected non-zero number of leaves'')
   \<and> \<not> isValidation
         (fst (cmd_createMerkleTree exampleDeps headerOnlyObject parsedNoRows emptyStore ''w0''))
   \<and> errorCode (Error ''Expected non-zero number of leaves'') = None"
proof -
  have "cmd_createMerkleTree exampleDeps headerOnlyObject parsedNoRows emptyStore ''w0''
          = (Inl (Error ''Expected non-zero number of leaves''), emptyStore)"
    by (rule cmd_createMerkleTree_no_rows [where content = "''WhitelistAddress,WhitelistAmount''"])
       (simp_all add: validName_w0 headerOnlyObject_def parsedNoRows_def)
  then show ?thesis by simp
qed

section \<open>Canonical addresses\<close>

lemma isHexChar_set: "isHexChar x = (x \<in> set ''0123456789abcdefABCDEF'')"
  by (auto simp: isHexChar_def isDigitChar_def isLowerHexLetter_def isUpperHexLetter_def)

lemma hex_lower_all: "\<forall>x\<in>set ''0123456789abcdefABCDEF''. isHexChar (toLowerChar x)"
  by code_simp

lemma hex_upper_all: "\<forall>x\<in>set ''0123456789abcdefABCDEF''. isHexChar (toUpperChar x)"
  by code_simp

lemma toLower_hex: "isHexChar x \<Longrightarrow> isHexChar (toLowerChar x)"
  using hex_lower_all unfolding isHexChar_set by blast

lemma toUpper_hex: "isHexChar x \<Longrightarrow> isHexChar (toUpperChar x)"
  using hex_upper_all unfolding isHexChar_set by blast

lemma map_of_zip_range: "map_of (zip xs ys) x = Some d \<Longrightarrow> d \<in> set ys"
  by (meson in_set_zipE map_of_SomeD)

lemma toUpper_zero: "toUpperChar x = CHR ''0'' \<Longrightarrow> x = CHR ''0''"
proof (cases "map_of (zip ''abcdefghijklmnopqrstuvwxyz'' ''ABCDEFGHIJKLMNOPQRSTUVWXYZ'') x")
  case None
  assume "toUpperChar x = CHR ''0''"
  with None show ?thesis by (simp add: toUpperChar_def)
next
  case (Some d)
  assume "toUpperChar x = CHR ''0''"
  with Some have "d = CHR ''0''" by (simp add: toUpperChar_def)
  moreover from map_of_zip_range [OF Some] have "d \<in> set ''ABCDEFGHIJKLMNOPQRSTUVWXYZ''" .
  ultimately show ?thesis by simp
qed

lemma toLower_cases:
  "toLowerChar x = x \<or> toLowerChar x \<in> set ''abcdefghijklmnopqrstuvwxyz''"
proof (cases "map_of (zip ''ABCDEFGHIJKLMNOPQRSTUVWXYZ'' ''abcdefghijklmnopqrstuvwxyz'') x")
  case None
  then show ?thesis by (simp add: toLowerChar_def)
next
  case (Some d)
  from map_of_zip_range [OF Some] Some show ?thesis by (simp add: toLowerChar_def)
qed

lemma toLower_zero: "toLowerChar x = CHR ''0'' \<Longrightarrow> x = CHR ''0''"
  using toLower_cases [of x] by auto

lemma toLower_toLower_all:
  "\<forall>x\<in>set ''0123456789abcdefABCDEFxX''. toLowerChar (toLowerChar x) = toLowerChar x"
  by code_simp

lemma getAddress_42:
  assumes "length a = 42" "getAddress d a = Some c"
  shows "take 2 a = ''0x'' \<and> list_all isHexChar (drop 2 a) \<and> c = getChecksumAddress d a"
  using assms
  by (auto simp: getAddress_def addressRegex_def Let_def split: if_splits)

lemma checksum_unfold:
  "getChecksumAddress d a =
     ''0x'' @ map (\<lambda>(j, c). if 8 \<le> nibble (keccak256 d (map of_char (drop 2 (toLowerCase a)))) j
                              then toUpperChar c else c)
                  (zip [0..<40] (drop 2 (toLowerCase a)))"
  by (simp add: getChecksumAddress_def Let_def)

lemma checksum_shape:
  assumes "length a = 42" "list_all isHexChar (drop 2 a)"
  shows "length (getChecksumAddress d a) = 42 \<and> take 2 (getChecksumAddress d a) = ''0x''
         \<and> list_all isHexChar (drop 2 (getChecksumAddress d a))"
proof -
  let ?chars = "drop 2 (toLowerCase a)"
  have len: "length ?chars = 40"
    using assms(1) by (simp add: toLowerCase_def)
  have hex: "\<forall>ch\<in>set ?chars. isHexChar ch"
    using assms(2) by (auto simp: toLowerCase_def drop_map list_all_iff toLower_hex)
  have "list_all isHexChar
          (map (\<lambda>(j, c). if 8 \<le> nibble (keccak256 d (map of_char ?chars)) j
                              then toUpperChar c else c) (zip [0..<40] ?chars))"
    using hex by (auto simp: list_all_iff toUpper_hex dest: set_zip_rightD)
  then show ?thesis
    using len by (simp add: checksum_unfold)
qed

lemma zeros40: "replicate 40 CHR ''0'' = ''0000000000000000000000000000000000000000''"
  by code_simp

lemma checksum_zero:
  assumes len: "length a = 42" and pre: "take 2 a = ''0x''"
      and z: "getChecksumAddress d a = ZeroAddress"
  shows "a = ZeroAddress"
proof -
  let ?chars = "drop 2 (toLowerCase a)"
  let ?h = "keccak256 d (map of_char ?chars)"
  let ?f = "\<lambda>(j, c). if 8 \<le> nibble ?h j then toUpperChar c else c"
  have l40: "length ?chars = 40"
    using len by (simp add: toLowerCase_def)
  from z have m: "map ?f (zip [0..<40] ?chars) = replicate 40 CHR ''0''"
    by (simp add: checksum_unfold ZeroAddress_def zeros40)
  have ch0: "?chars ! i = CHR ''0''" if "i < 40" for i
  proof -
    from that l40 have "map ?f (zip [0..<40] ?chars) ! i = ?f (i, ?chars ! i)"
      by simp
    with m that have "?f (i, ?chars ! i) = CHR ''0''"
      by simp
    then show ?thesis
      by (auto dest: toUpper_zero split: if_splits)
  qed
  have d0: "drop 2 a ! i = CHR ''0''" if "i < 40" for i
  proof -
    from that len have "?chars ! i = toLowerChar (drop 2 a ! i)"
      by (simp add: toLowerCase_def drop_map)
    with ch0 [OF that] show ?thesis
      by (simp add: toLower_zero)
  qed
  have "drop 2 a = replicate 40 CHR ''0''"
    using len d0 by (intro nth_equalityI) simp_all
  moreover have "a = take 2 a @ drop 2 a" by simp
  ultimately have "a = ''0x'' @ replicate 40 CHR ''0''"
    using pre by simp
  then show ?thesis
    by (simp add: ZeroAddress_def zeros40)
qed

lemma canonical_form:
  assumes "length a = 42" "getAddress d a = Some c" "a \<noteq> ZeroAddress"
  shows "length c = 42 \<and> ValidEvmAddressRegex c \<and> c \<noteq> ZeroAddress"
proof -
  from getAddress_42 [OF assms(1,2)]
  have p: "take 2 a = ''0x''" and h: "list_all isHexChar (drop 2 a)"
    and c: "c = getChecksumAddress d a" by simp_all
  from checksum_shape [OF assms(1) h, of d] c
  have "length c = 42" "ValidEvmAddressRegex c"
    by (simp_all add: ValidEvmAddressRegex_def)
  moreover have "c \<noteq> ZeroAddress"
    using checksum_zero [OF assms(1) p, of d] c assms(3) by auto
  ultimately show ?thesis by simp
qed

lemma toLowerCase_Zero: "toLowerCase ZeroAddress = ZeroAddress"
  by code_simp

lemma lower_zero:
  assumes len: "length b = 42" and pre: "take 2 b = ''0x''"
      and z: "toLowerCase b = ZeroAddress"
  shows "b = ZeroAddress"
proof -
  have "drop 2 (toLowerCase b) = drop 2 ZeroAddress"
    using z by simp
  then have m: "map toLowerChar (drop 2 b) = replicate 40 CHR ''0''"
    by (simp add: toLowerCase_def drop_map ZeroAddress_def zeros40)
  have d0: "drop 2 b ! i = CHR ''0''" if "i < 40" for i
  proof -
    from that len have "map toLowerChar (drop 2 b) ! i = toLowerChar (drop 2 b ! i)"
      by simp
    with m that have "toLowerChar (drop 2 b ! i) = CHR ''0''"
      by simp
    then show ?thesis
      by (rule toLower_zero)
  qed
  have "drop 2 b = replicate 40 CHR ''0''"
    using len d0 by (intro nth_equalityI) simp_all
  moreover have "b = take 2 b @ drop 2 b" by simp
  ultimately have "b = ''0x'' @ replicate 40 CHR ''0''"
    using pre by simp
  then show ?thesis
    by (simp add: ZeroAddress_def zeros40)
qed

lemma checksum_lower:
  "toLowerCase a = toLowerCase b \<Longrightarrow> getChecksumAddress d a = getChecksumAddress d b"
  by (simp add: checksum_unfold)

section \<open>The read path\<close>

lemma validName_key: "\<not> invalidWhitelistName n \<Longrightarrow> \<not> invalidPartitionKeyValue n"
  by (simp add: invalidWhitelistName_def invalidPartitionKeyValue_def
      ValidWhitelistNameMinLen_def ValidWhitelistNameMaxLen_def)

lemma proofs_getItem_Throw:
  "\<not> invalidPartitionKeyValue k \<Longrightarrow> length c = 42 \<Longrightarrow> nextReply st = Throw e \<Longrightarrow>
     proofs_getItem st k c = (Inl e, consume st)"
  by (auto simp: proofs_getItem_def send_eq invalidSortKeyValue_def
      ValidSortKeyValueMinLen_def ValidSortKeyValueMaxLen_def)

lemma proofs_getItem_ok:
  "\<not> invalidPartitionKeyValue k \<Longrightarrow> length c = 42 \<Longrightarrow> \<not> isThrow (nextReply st) \<Longrightarrow>
     proofs_getItem st k c = (Inr (lookupProof (proofs st) k c), consume st)"
  by (cases "nextReply st")
     (auto simp: proofs_getItem_def send_eq invalidSortKeyValue_def
      ValidSortKeyValueMinLen_def ValidSortKeyValueMaxLen_def)

lemma data_getMerkleRoot_Throw:
  "\<not> invalidPartitionKeyValue k \<Longrightarrow> nextReply st = Throw e \<Longrightarrow>
     data_getMerkleRoot st k = (Inl (rethrow e), consume st)"
  by (simp add: data_getMerkleRoot_def invalidKey_unfold [symmetric] roots_getItem_Throw)

lemma data_getMerkleRoot_ok:
  "\<not> invalidPartitionKeyValue k \<Longrightarrow> \<not> isThrow (nextReply st) \<Longrightarrow>
     data_getMerkleRoot st k = (Inr (roots st k), consume st)"
  by (simp add: data_getMerkleRoot_def invalidKey_unfold [symmetric] roots_getItem_ok)

lemma data_getMerkleProof_cases:
  assumes k: "\<not> invalidPartitionKeyValue k"
      and c: "length c = 42" "ValidEvmAddressRegex c" "c \<noteq> ZeroAddress"
  shows "data_getMerkleProof st k c =
     (if isThrow (nextReply st) then (Inl (rethrow (case nextReply st of Throw e \<Rightarrow> e)), consume st)
      else case roots st k of
             None \<Rightarrow> (Inl (ValidationError (''[ERR] Merkle tree not found: '' @ k)), consume st)
           | Some row \<Rightarrow>
               if WhitelistStatus row \<noteq> Completed
               then (Inl (ValidationError (''[ERR] Merkle tree not completed: ''
                            @ statusText (WhitelistStatus row))), consume st)
               else if isThrow (nextReply (consume st))
               then (Inl (rethrow (case nextReply (consume st) of Throw e \<Rightarrow> e)),
                     consume (consume st))
               else (Inr (lookupProof (proofs st) k c), consume (consume st)))"
proof (cases "isThrow (nextReply st)")
  case True
  then obtain e where e: "nextReply st = Throw e" using isThrow_cases by blast
  show ?thesis
    using k c e roots_getItem_Throw [OF k e]
    by (simp add: data_getMerkleProof_def invalidKey_unfold [symmetric] ValidEvmAddressLen_def)
next
  case False
  note g = roots_getItem_ok [OF k False]
  show ?thesis
  proof (cases "roots st k")
    case None
    with False g k c show ?thesis
      by (simp add: data_getMerkleProof_def invalidKey_unfold [symmetric] ValidEvmAddressLen_def)
  next
    case (Some row)
    show ?thesis
    proof (cases "WhitelistStatus row = Completed")
      case ne: False
      with Some False g k c show ?thesis
        by (simp add: data_getMerkleProof_def invalidKey_unfold [symmetric]
            ValidEvmAddressLen_def)
    next
      case True
      show ?thesis
      proof (cases "isThrow (nextReply (consume st))")
        case t: True
        then obtain e where e: "nextReply (consume st) = Throw e" using isThrow_cases by blast
        from True Some False g k c e proofs_getItem_Throw [OF k c(1) e] show ?thesis
          by (simp add: data_getMerkleProof_def invalidKey_unfold [symmetric]
              ValidEvmAddressLen_def)
      next
        case f: False
        from True Some False g k c f proofs_getItem_ok [OF k c(1) f] show ?thesis
          by (simp add: data_getMerkleProof_def invalidKey_unfold [symmetric]
              ValidEvmAddressLen_def)
      qed
    qed
  qed
qed

lemma query_getMerkleProof_cases:
  assumes n: "\<not> invalidWhitelistName whitelistName"
      and a: "length a = ValidEvmAddressLen" "ValidEvmAddressRegex a" "a \<noteq> ZeroAddress"
      and c: "getAddress d a = Some c"
  shows "query_getMerkleProof d st whitelistName a =
     (if isThrow (nextReply st)
      then (Inl (rethrow (case nextReply st of Throw e \<Rightarrow> e)), consume st)
      else case roots st whitelistName of
             None \<Rightarrow> (Inl (ValidationError (''[ERR] Merkle tree not found: '' @ whitelistName)),
                       consume st)
           | Some row \<Rightarrow>
               if WhitelistStatus row \<noteq> Completed
               then (Inl (ValidationError (''[ERR] Merkle tree not ready: ''
                            @ statusText (WhitelistStatus row))), consume st)
               else data_getMerkleProof (consume st) whitelistName c)"
proof -
  note k = validName_key [OF n]
  show ?thesis
  proof (cases "isThrow (nextReply st)")
    case True
    then obtain e where e: "nextReply st = Throw e" using isThrow_cases by blast
    from n a c e data_getMerkleRoot_Throw [OF k e] show ?thesis
      by (simp add: query_getMerkleProof_def)
  next
    case False
    from n a c False data_getMerkleRoot_ok [OF k False] show ?thesis
      by (simp add: query_getMerkleProof_def split: option.splits)
  qed
qed

text \<open>
  Claim C7. For a valid name and an address that passes the address checks, with
  canonical form \<open>c\<close>: whatever the provider does, \<^verbatim>\<open>getMerkleProof\<close> returns a result
  only when the roots row exists with status COMPLETED, and the result then is the
  proofs-table item (or its absence) under the name and \<open>c\<close>. When the provider answers
  the read of the roots row, an absent row gives the validation error "Merkle tree not
  found" and a row whose status is not COMPLETED gives the validation error "Merkle tree
  not ready"; when the status is COMPLETED and the provider answers the two further
  reads, the result is the item of the proofs table.
\<close>

theorem C7_only_completed:
  assumes n: "\<not> invalidWhitelistName whitelistName"
      and a: "length a = ValidEvmAddressLen" "ValidEvmAddressRegex a" "a \<noteq> ZeroAddress"
      and c: "getAddress d a = Some c"
  shows "(\<forall>p. fst (query_getMerkleProof d st whitelistName a) = Inr p \<longrightarrow>
            (\<exists>row. roots st whitelistName = Some row \<and> WhitelistStatus row = Completed)
            \<and> p = lookupProof (proofs st) whitelistName c)
       \<and> (\<not> isThrow (nextReply st) \<longrightarrow>
            (roots st whitelistName = None \<longrightarrow>
               fst (query_getMerkleProof d st whitelistName a)
                 = Inl (ValidationError (''[ERR] Merkle tree not found: '' @ whitelistName)))
          \<and> (\<forall>row. roots st whitelistName = Some row \<and> WhitelistStatus row \<noteq> Completed \<longrightarrow>
               fst (query_getMerkleProof d st whitelistName a)
                 = Inl (ValidationError (''[ERR] Merkle tree not ready: ''
                          @ statusText (WhitelistStatus row))))
          \<and> (\<forall>row. roots st whitelistName = Some row \<and> WhitelistStatus row = Completed
                   \<and> \<not> isThrow (nextReply (consume st))
                   \<and> \<not> isThrow (nextReply (consume (consume st))) \<longrightarrow>
               fst (query_getMerkleProof d st whitelistName a)
                 = Inr (lookupProof (proofs st) whitelistName c)))"
proof -
  note k = validName_key [OF n]
  from a(1) have l: "length a = 42" by (simp add: ValidEvmAddressLen_def)
  from canonical_form [OF l c a(3)]
  have cf: "length c = 42" "ValidEvmAddressRegex c" "c \<noteq> ZeroAddress" by simp_all
  note q = query_getMerkleProof_cases [OF n a c, of st]
  note p = data_getMerkleProof_cases [OF k cf, of "consume st"]
  show ?thesis
    unfolding q p
    by (auto split: option.splits if_splits)
qed

theorem C7_only_completed_witness:
  "\<not> invalidWhitelistName ''w0'' \<and> length upperForm = ValidEvmAddressLen
   \<and> ValidEvmAddressRegex upperForm \<and> upperForm \<noteq> ZeroAddress
   \<and> getAddress exampleDeps upperForm = Some lowerForm
   \<and> \<not> isThrow (nextReply emptyStore) \<and> roots emptyStore ''w0'' = None
   \<and> fst (query_getMerkleProof exampleDeps emptyStore ''w0'' upperForm)
       = Inl (ValidationError (''[ERR] Merkle tree not found: '' @ ''w0''))
   \<and> \<not> isThrow (nextReply creatingStore)
   \<and> roots creatingStore ''w0'' = Some \<lparr>MerkleRoot = ''0x01'', WhitelistStatus = Creating\<rparr>
   \<and> fst (query_getMerkleProof exampleDeps creatingStore ''w0'' upperForm)
       = Inl (ValidationError (''[ERR] Merkle tree not ready: '' @ statusText Creating))
   \<and> \<not> isThrow (nextReply proofsStore)
   \<and> roots proofsStore ''w0'' = Some \<lparr>MerkleRoot = ''0x01'', WhitelistStatus = Completed\<rparr>
   \<and> \<not> isThrow (nextReply (consume proofsStore))
   \<and> \<not> isThrow (nextReply (consume (consume proofsStore)))
   \<and> fst (query_getMerkleProof exampleDeps proofsStore ''w0'' upperForm) = Inr (Some storedProof)"
proof -
  note n = validName_w0
  have l: "length upperForm = ValidEvmAddressLen" by code_simp
  have r: "ValidEvmAddressRegex upperForm" by code_simp
  have z: "upperForm \<noteq> ZeroAddress" by code_simp
  have c: "getAddress exampleDeps upperForm = Some lowerForm" by code_simp
  have e1: "\<not> isThrow (nextReply emptyStore)" by code_simp
  have e2: "roots emptyStore ''w0'' = None" by code_simp
  have c1: "\<not> isThrow (nextReply creatingStore)" by code_simp
  have c2: "roots creatingStore ''w0''
              = Some \<lparr>MerkleRoot = ''0x01'', WhitelistStatus = Creating\<rparr>" by code_simp
  have p1: "\<not> isThrow (nextReply proofsStore)" by code_simp
  have p2: "roots proofsStore ''w0''
              = Some \<lparr>MerkleRoot = ''0x01'', WhitelistStatus = Completed\<rparr>" by code_simp
  have p3: "\<not> isThrow (nextReply (consume proofsStore))" by code_simp
  have p4: "\<not> isThrow (nextReply (consume (consume proofsStore)))" by code_simp
  have p5: "lookupProof (proofs proofsStore) ''w0'' lowerForm = Some storedProof" by code_simp
  note t1 = C7_only_completed [OF n l r z c, of emptyStore, THEN conjunct2, rule_format, OF e1]
  note r1 = t1 [THEN conjunct1, rule_format, OF e2]
  note t2 = C7_only_completed [OF n l r z c, of creatingStore, THEN conjunct2, rule_format, OF c1]
  have c3: "roots creatingStore ''w0''
              = Some \<lparr>MerkleRoot = ''0x01'', WhitelistStatus = Creating\<rparr>
            \<and> WhitelistStatus \<lparr>MerkleRoot = ''0x01'', WhitelistStatus = Creating\<rparr>
                \<noteq> Completed"
    using c2 by simp
  note r2' = t2 [THEN conjunct2, THEN conjunct1, rule_format, OF c3]
  have r2: "fst (query_getMerkleProof exampleDeps creatingStore ''w0'' upperForm)
              = Inl (ValidationError (''[ERR] Merkle tree not ready: '' @ statusText Creating))"
    using r2' by simp
  note t3 = C7_only_completed [OF n l r z c, of proofsStore, THEN conjunct2, rule_format, OF p1]
  have p6: "roots proofsStore ''w0''
              = Some \<lparr>MerkleRoot = ''0x01'', WhitelistStatus = Completed\<rparr>
            \<and> WhitelistStatus \<lparr>MerkleRoot = ''0x01'', WhitelistStatus = Completed\<rparr>
                = Completed
            \<and> \<not> isThrow (nextReply (consume proofsStore))
            \<and> \<not> isThrow (nextReply (consume (consume proofsStore)))"
    using p2 p3 p4 by simp
  note r3' = t3 [THEN conjunct2, THEN conjunct2, rule_format, OF p6]
  have r3: "fst (query_getMerkleProof exampleDeps proofsStore ''w0'' upperForm)
              = Inr (Some storedProof)"
    using r3' by (simp only: p5)
  show ?thesis
    by (intro conjI n l r z c e1 e2 r1 c1 c2 r2 p1 p2 p3 p4 r3)
qed

lemma same_account_same_result:
  assumes a: "length a = ValidEvmAddressLen" "ValidEvmAddressRegex a" "getAddress d a = Some ca"
      and b: "length b = ValidEvmAddressLen" "ValidEvmAddressRegex b" "getAddress d b = Some cb"
      and same: "toLowerCase a = toLowerCase b"
  shows "ca = cb
         \<and> query_getMerkleProof d st whitelistName a = query_getMerkleProof d st whitelistName b"
proof -
  from a(1) b(1) have la: "length a = 42" and lb: "length b = 42"
    by (simp_all add: ValidEvmAddressLen_def)
  note ga = getAddress_42 [OF la a(3)] and gb = getAddress_42 [OF lb b(3)]
  from ga gb checksum_lower [OF same, of d] have eq: "ca = cb"
    by simp
  have zero: "a = ZeroAddress \<longleftrightarrow> b = ZeroAddress"
  proof
    assume "a = ZeroAddress"
    with same have "toLowerCase b = ZeroAddress" by (simp add: toLowerCase_Zero)
    then show "b = ZeroAddress" by (rule lower_zero [OF lb conjunct1 [OF gb]])
  next
    assume "b = ZeroAddress"
    with same have "toLowerCase a = ZeroAddress" by (simp add: toLowerCase_Zero)
    then show "a = ZeroAddress" by (rule lower_zero [OF la conjunct1 [OF ga]])
  qed
  have "query_getMerkleProof d st whitelistName a = query_getMerkleProof d st whitelistName b"
  proof (cases "a = ZeroAddress")
    case True
    with zero show ?thesis by simp
  next
    case False
    with zero have "b \<noteq> ZeroAddress" by simp
    with False a(3) b(3) eq show ?thesis
      by (simp add: query_getMerkleProof_def a(1,2) b(1,2))
  qed
  with eq show ?thesis by simp
qed

lemma query_lookup:
  assumes n: "\<not> invalidWhitelistName whitelistName"
      and a: "length a = ValidEvmAddressLen" "ValidEvmAddressRegex a" "a \<noteq> ZeroAddress"
      and c: "getAddress d a = Some c"
  shows "(\<forall>p. fst (query_getMerkleProof d st whitelistName a) = Inr p \<longrightarrow>
            p = lookupProof (proofs st) whitelistName c)
       \<and> (\<not> isThrow (nextReply st)
            \<and> (\<exists>row. roots st whitelistName = Some row \<and> WhitelistStatus row = Completed)
            \<and> \<not> isThrow (nextReply (consume st))
            \<and> \<not> isThrow (nextReply (consume (consume st))) \<longrightarrow>
          fst (query_getMerkleProof d st whitelistName a)
            = Inr (lookupProof (proofs st) whitelistName c))"
proof -
  note k = validName_key [OF n]
  from a(1) have l: "length a = 42" by (simp add: ValidEvmAddressLen_def)
  from canonical_form [OF l c a(3)]
  have cf: "length c = 42" "ValidEvmAddressRegex c" "c \<noteq> ZeroAddress" by simp_all
  note q = query_getMerkleProof_cases [OF n a c, of st]
  note p = data_getMerkleProof_cases [OF k cf, of "consume st"]
  show ?thesis
    unfolding q p
    by (auto split: option.splits if_splits)
qed

lemma query_refuses:
  assumes "invalidWhitelistName whitelistName \<or> a = ZeroAddress"
  shows "\<exists>e. fst (query_getMerkleProof d st whitelistName a) = Inl e"
  using assms by (auto simp: query_getMerkleProof_def)

lemma ones_take: "n \<le> 252 \<Longrightarrow> take_bit 4 (drop_bit n (- 1 :: 256 word)) = mask 4"
  by (rule bit_eqI) (auto simp: bit_simps)

lemma mod16_take: "(x::nat) mod 16 = take_bit 4 x"
  by (simp add: take_bit_eq_mod)

lemma unat_mask4: "unat (mask 4 :: 256 word) = 15"
  by (simp add: mask_eq_exp_minus_1)

lemma ones_nibble: "j < 40 \<Longrightarrow> nibble (- 1) j = 15"
  unfolding nibble_def
  by (simp only: mod16_take unsigned_take_bit_eq [symmetric] ones_take unat_mask4)

lemma checksum_ones:
  assumes "length a = 42"
  shows "getChecksumAddress checksumDeps a = ''0x'' @ map toUpperChar (drop 2 (toLowerCase a))"
proof -
  let ?chars = "drop 2 (toLowerCase a)"
  let ?f = "\<lambda>(j, c). if 8 \<le> nibble (- 1) j then toUpperChar c else c"
  have len: "length ?chars = 40"
    using assms by (simp add: toLowerCase_def)
  have "map ?f (zip [0..<40] ?chars) = map toUpperChar ?chars"
  proof (rule nth_equalityI)
    show "length (map ?f (zip [0..<40] ?chars)) = length (map toUpperChar ?chars)"
      using len by simp
  next
    fix i
    assume "i < length (map ?f (zip [0..<40] ?chars))"
    with len have i: "i < 40" by simp
    with len have "map ?f (zip [0..<40] ?chars) ! i = ?f (i, ?chars ! i)"
      by simp
    also have "\<dots> = toUpperChar (?chars ! i)"
      using ones_nibble [OF i] by simp
    finally show "map ?f (zip [0..<40] ?chars) ! i = map toUpperChar ?chars ! i"
      using i len by simp
  qed
  then show ?thesis
    by (simp add: checksum_unfold checksumDeps_def)
qed

lemma getAddress_lowerForm: "getAddress checksumDeps lowerForm = Some upperForm"
proof -
  have r: "addressRegex lowerForm" by code_simp
  have p: "take 2 lowerForm = ''0x''" by code_simp
  have m: "\<not> mixedCase lowerForm" by code_simp
  have l: "length lowerForm = 42" by code_simp
  have c: "''0x'' @ map toUpperChar (drop 2 (toLowerCase lowerForm)) = upperForm" by code_simp
  show ?thesis
    by (simp only: getAddress_def r p m checksum_ones [OF l] c Let_def if_True if_False simp_thms)
qed

lemma getAddress_upperForm: "getAddress checksumDeps upperForm = Some upperForm"
proof -
  have r: "addressRegex upperForm" by code_simp
  have p: "take 2 upperForm = ''0x''" by code_simp
  have m: "\<not> mixedCase upperForm" by code_simp
  have l: "length upperForm = 42" by code_simp
  have c: "''0x'' @ map toUpperChar (drop 2 (toLowerCase upperForm)) = upperForm" by code_simp
  show ?thesis
    by (simp only: getAddress_def r p m checksum_ones [OF l] c Let_def if_True if_False simp_thms)
qed

text \<open>
  Claim C6, as amended. Take two address strings of 42 characters that the
  canonicalisation accepts (so both begin with the lower-case prefix 0x, and each is all
  lower case, all upper case or correctly checksummed) and that denote the same account
  (they agree once lower-cased). They have the same canonical form, the EIP-55 checksummed
  form of the account. \<^verbatim>\<open>getMerkleProof\<close> of the query service returns the same result and
  leaves the same store for both, for every name; whenever it returns a result, that
  result is the item of the proofs table under the name and the canonical form (not
  under the string as it was given); and when the name is valid, the roots row is
  COMPLETED and the provider answers the three reads, it does return that item, for both
  strings.
\<close>

theorem C6_normalization:
  assumes a: "length a = ValidEvmAddressLen" "ValidEvmAddressRegex a" "getAddress d a = Some ca"
      and b: "length b = ValidEvmAddressLen" "ValidEvmAddressRegex b" "getAddress d b = Some cb"
      and same: "toLowerCase a = toLowerCase b"
  shows "ca = cb \<and> ca = getChecksumAddress d a
       \<and> query_getMerkleProof d st whitelistName a = query_getMerkleProof d st whitelistName b
       \<and> (\<forall>p. fst (query_getMerkleProof d st whitelistName a) = Inr p \<longrightarrow>
             p = lookupProof (proofs st) whitelistName ca)
       \<and> (\<not> invalidWhitelistName whitelistName \<and> a \<noteq> ZeroAddress
            \<and> \<not> isThrow (nextReply st)
            \<and> (\<exists>row. roots st whitelistName = Some row \<and> WhitelistStatus row = Completed)
            \<and> \<not> isThrow (nextReply (consume st))
            \<and> \<not> isThrow (nextReply (consume (consume st))) \<longrightarrow>
          fst (query_getMerkleProof d st whitelistName a)
            = Inr (lookupProof (proofs st) whitelistName ca)
          \<and> fst (query_getMerkleProof d st whitelistName b)
              = Inr (lookupProof (proofs st) whitelistName ca))"
proof -
  from a(1) have la: "length a = 42" by (simp add: ValidEvmAddressLen_def)
  note s = same_account_same_result [OF a b same, of st whitelistName]
  from s have eq: "ca = cb"
    and q: "query_getMerkleProof d st whitelistName a = query_getMerkleProof d st whitelistName b"
    by simp_all
  from getAddress_42 [OF la a(3)] have ck: "ca = getChecksumAddress d a" by simp
  have only: "\<forall>p. fst (query_getMerkleProof d st whitelistName a) = Inr p \<longrightarrow>
             p = lookupProof (proofs st) whitelistName ca"
  proof (cases "invalidWhitelistName whitelistName \<or> a = ZeroAddress")
    case True
    from query_refuses [OF True, of d st] show ?thesis by auto
  next
    case False
    then have n: "\<not> invalidWhitelistName whitelistName" and z: "a \<noteq> ZeroAddress" by simp_all
    from query_lookup [OF n a(1,2) z a(3), of st] show ?thesis by simp
  qed
  have does: "fst (query_getMerkleProof d st whitelistName a)
            = Inr (lookupProof (proofs st) whitelistName ca)
          \<and> fst (query_getMerkleProof d st whitelistName b)
              = Inr (lookupProof (proofs st) whitelistName ca)"
    if h: "\<not> invalidWhitelistName whitelistName \<and> a \<noteq> ZeroAddress
            \<and> \<not> isThrow (nextReply st)
            \<and> (\<exists>row. roots st whitelistName = Some row \<and> WhitelistStatus row = Completed)
            \<and> \<not> isThrow (nextReply (consume st))
            \<and> \<not> isThrow (nextReply (consume (consume st)))"
  proof -
    from h have n: "\<not> invalidWhitelistName whitelistName" and z: "a \<noteq> ZeroAddress" by simp_all
    from h have rest: "\<not> isThrow (nextReply st)
            \<and> (\<exists>row. roots st whitelistName = Some row \<and> WhitelistStatus row = Completed)
            \<and> \<not> isThrow (nextReply (consume st))
            \<and> \<not> isThrow (nextReply (consume (consume st)))" by simp
    from query_lookup [OF n a(1,2) z a(3), of st, THEN conjunct2, rule_format, OF rest]
    have "fst (query_getMerkleProof d st whitelistName a)
            = Inr (lookupProof (proofs st) whitelistName ca)" .
    with q show ?thesis by simp
  qed
  from eq ck q only does show ?thesis
    by (intro conjI impI) simp_all
qed

theorem C6_normalization_witness:
  "length lowerForm = ValidEvmAddressLen \<and> ValidEvmAddressRegex lowerForm
   \<and> getAddress checksumDeps lowerForm = Some upperForm
   \<and> length upperForm = ValidEvmAddressLen \<and> ValidEvmAddressRegex upperForm
   \<and> getAddress checksumDeps upperForm = Some upperForm
   \<and> toLowerCase lowerForm = toLowerCase upperForm
   \<and> lowerForm \<noteq> upperForm
   \<and> lookupProof (proofs checksumStore) ''w0'' lowerForm = None
   \<and> fst (query_getMerkleProof checksumDeps checksumStore ''w0'' lowerForm)
       = Inr (Some checksummedProof)
   \<and> fst (query_getMerkleProof checksumDeps checksumStore ''w0'' upperForm)
       = Inr (Some checksummedProof)"
proof -
  have a1: "length lowerForm = ValidEvmAddressLen" by code_simp
  have a2: "ValidEvmAddressRegex lowerForm" by code_simp
  note a3 = getAddress_lowerForm
  have b1: "length upperForm = ValidEvmAddressLen" by code_simp
  have b2: "ValidEvmAddressRegex upperForm" by code_simp
  note b3 = getAddress_upperForm
  have s: "toLowerCase lowerForm = toLowerCase upperForm" by code_simp
  have d: "lowerForm \<noteq> upperForm" by code_simp
  have raw: "lookupProof (proofs checksumStore) ''w0'' lowerForm = None" by code_simp
  have found: "lookupProof (proofs checksumStore) ''w0'' upperForm = Some checksummedProof"
    by code_simp
  have z: "lowerForm \<noteq> ZeroAddress" by code_simp
  have r1: "\<not> isThrow (nextReply checksumStore)" by code_simp
  have r2: "\<exists>row. roots checksumStore ''w0'' = Some row \<and> WhitelistStatus row = Completed"
    by (simp add: checksumStore_def completedStore_def emptyStore_def)
  have r3: "\<not> isThrow (nextReply (consume checksumStore))" by code_simp
  have r4: "\<not> isThrow (nextReply (consume (consume checksumStore)))" by code_simp
  have prem: "\<not> invalidWhitelistName ''w0'' \<and> lowerForm \<noteq> ZeroAddress
            \<and> \<not> isThrow (nextReply checksumStore)
            \<and> (\<exists>row. roots checksumStore ''w0'' = Some row \<and> WhitelistStatus row = Completed)
            \<and> \<not> isThrow (nextReply (consume checksumStore))
            \<and> \<not> isThrow (nextReply (consume (consume checksumStore)))"
    by (intro conjI validName_w0 z r1 r2 r3 r4)
  note t = C6_normalization [OF a1 a2 a3 b1 b2 b3 s, of checksumStore "''w0''",
      THEN conjunct2, THEN conjunct2, THEN conjunct2, THEN conjunct2, THEN mp, OF prem]
  from t found have q1: "fst (query_getMerkleProof checksumDeps checksumStore ''w0'' lowerForm)
       = Inr (Some checksummedProof)"
    and q2: "fst (query_getMerkleProof checksumDeps checksumStore ''w0'' upperForm)
       = Inr (Some checksummedProof)"
    by simp_all
  show ?thesis
    by (intro conjI a1 a2 a3 b1 b2 b3 s d raw q1 q2)
qed

text \<open>
  The claim as stated fails. The all-lower-case form of an address and the same
  characters behind the prefix 0X both pass the address regex, neither is in mixed case
  (so neither carries a checksum to check), and they denote the same account; on a
  COMPLETED whitelist that holds a proof for the account, \<^verbatim>\<open>getMerkleProof\<close> returns the
  proof for the first and a validation error for the second.
\<close>

theorem C6_normalization_counterexample:
  "length lowerForm = ValidEvmAddressLen \<and> ValidEvmAddressRegex lowerForm
   \<and> \<not> mixedCase lowerForm
   \<and> length upperPrefixForm = ValidEvmAddressLen \<and> ValidEvmAddressRegex upperPrefixForm
   \<and> \<not> mixedCase upperPrefixForm
   \<and> toLowerCase lowerForm = toLowerCase upperPrefixForm
   \<and> fst (query_getMerkleProof exampleDeps proofsStore ''w0'' lowerForm) = Inr (Some storedProof)
   \<and> fst (query_getMerkleProof exampleDeps proofsStore ''w0'' upperPrefixForm)
       = Inl (ValidationError (''[ERR] Whitelist address invalid: '' @ upperPrefixForm))"
  by code_simp

section \<open>The roots row as a state machine\<close>

lemma follows_append:
  "follows t (ws @ ws') = (follows t ws \<and> follows (replay t ws) ws')"
  by (induction ws arbitrary: t) auto

lemma replay_append: "replay t (ws @ ws') = replay (replay t ws) ws'"
  by (induction ws arbitrary: t) auto

lemma extends_refl: "roots st' = roots st \<Longrightarrow> history st' = history st \<Longrightarrow> extends st st'"
  by (auto simp: extends_def intro: exI [of _ "[]"])

lemma extends_trans: "extends a b \<Longrightarrow> extends b c \<Longrightarrow> extends a c"
  unfolding extends_def
proof (elim exE conjE)
  fix ws ws'
  assume h: "history b = history a @ ws" "follows (roots a) ws" "roots b = replay (roots a) ws"
    "history c = history b @ ws'" "follows (roots b) ws'" "roots c = replay (roots b) ws'"
  show "\<exists>ws. history c = history a @ ws \<and> follows (roots a) ws \<and> roots c = replay (roots a) ws"
    using h by (intro exI [of _ "ws @ ws'"]) (simp add: follows_append replay_append)
qed

lemma extends_write:
  "legal (roots st k) row \<Longrightarrow> roots st' = roots st \<Longrightarrow> history st' = history st \<Longrightarrow>
     extends st (writeRoot st' k row)"
  by (auto simp: extends_def intro!: exI [of _ "[(k, row)]"])

lemma putItem_extends:
  assumes "roots_putItem st k row (Some c) = (res, st')"
      and "\<And>cur. holds c cur \<Longrightarrow> legal cur (Some row)"
  shows "extends st st'"
proof (cases "invalidPartitionKeyValue k")
  case True
  with assms(1) show ?thesis by (auto simp: roots_putItem_def intro: extends_refl)
next
  case False
  show ?thesis
  proof (cases "isThrow (nextReply st)")
    case True
    then obtain e where "nextReply st = Throw e" using isThrow_cases by blast
    from roots_putItem_Throw [OF False this] assms(1) show ?thesis
      by (auto intro: extends_refl)
  next
    case nt: False
    show ?thesis
    proof (cases "holds c (roots st k)")
      case True
      from roots_putItem_holds [OF False nt True] assms(1)
      have "st' = writeRoot (consume st) k (Some row)" by simp
      with assms(2) [OF True] show ?thesis
        by (simp add: extends_write)
    next
      case False
      from roots_putItem_refused [OF \<open>\<not> invalidPartitionKeyValue k\<close> nt False] assms(1)
      show ?thesis by (auto intro: extends_refl)
    qed
  qed
qed

lemma creating_legal:
  "holds (creatingCondition r) cur \<Longrightarrow>
     legal cur (Some \<lparr>MerkleRoot = r, WhitelistStatus = Failed\<rparr>)
     \<and> legal cur (Some \<lparr>MerkleRoot = r, WhitelistStatus = Completed\<rparr>)"
  by (cases cur) (auto simp: creatingCondition_def)

lemma deletable_legal:
  "holds (deletableCondition r) cur \<Longrightarrow>
     legal cur (Some \<lparr>MerkleRoot = r, WhitelistStatus = Deleting\<rparr>)"
  by (cases cur) (auto simp: deletableCondition_def)

lemma deleting_legal:
  "holds (deletingCondition r) cur \<Longrightarrow>
     legal cur (Some \<lparr>MerkleRoot = r, WhitelistStatus = Failed\<rparr>)"
  by (cases cur) (auto simp: deletingCondition_def)

lemma insert_extends:
  assumes "roots_executeInsertStatement st k \<lparr>MerkleRoot = r, WhitelistStatus = Creating\<rparr>
             = (res, st')"
  shows "extends st st'"
proof (cases res)
  case (Inl e)
  with assms have "roots st' = roots st \<and> history st' = history st"
    by (cases "nextReply st")
       (auto simp: roots_executeInsertStatement_def send_eq split: if_splits option.splits)
  then show ?thesis by (simp add: extends_refl)
next
  case (Inr u)
  with assms have "roots_executeInsertStatement st k
      \<lparr>MerkleRoot = r, WhitelistStatus = Creating\<rparr> = (Inr u, st')" by simp
  from insert_Inr [OF this]
  have "roots st k = None"
    and "st' = writeRoot (consume st) k (Some \<lparr>MerkleRoot = r, WhitelistStatus = Creating\<rparr>)"
    by simp_all
  then show ?thesis
    by (simp add: extends_write)
qed

lemma roots_getItem_frame:
  "roots_getItem st k = (res, st') \<Longrightarrow> roots st' = roots st \<and> history st' = history st"
  by (cases "nextReply st") (auto simp: roots_getItem_def send_eq split: if_splits)

lemma putItem_Inr:
  "roots_putItem st k row c = (Inr u, st') \<Longrightarrow> st' = writeRoot (consume st) k (Some row)"
  by (cases "nextReply st")
     (auto simp: roots_putItem_def send_eq split: if_splits option.splits)

lemma deleteItem_extends:
  assumes "roots_deleteItem st k = (res, st')"
      and "\<exists>r. roots st k = Some r \<and> WhitelistStatus r = Deleting"
  shows "extends st st'"
proof (cases res)
  case (Inl e)
  with assms(1) deleteItem_fails [of st k e st'] show ?thesis
    by (simp add: extends_refl)
next
  case (Inr u)
  with assms(1) have "st' = writeRoot (consume st) k None"
    by (cases "nextReply st") (auto simp: roots_deleteItem_def send_eq split: if_splits)
  moreover from assms(2) have "legal (roots st k) None" by auto
  ultimately show ?thesis by (simp add: extends_write)
qed

subsection \<open>One step of a call\<close>

lemma insert_outcome:
  assumes "roots_executeInsertStatement st k row = (res, st')"
  shows "(\<exists>e. res = Inl e \<and> roots st' = roots st \<and> history st' = history st)
       \<or> (res = Inr () \<and> roots st k = None \<and> roots st' = (roots st)(k := Some row)
           \<and> history st' = history st @ [(k, Some row)])"
  using assms
  by (cases "nextReply st")
     (auto simp: roots_executeInsertStatement_def send_eq split: if_splits option.splits)

lemma putItem_outcome:
  assumes "roots_putItem st k row (Some c) = (res, st')"
  shows "(\<exists>e. res = Inl e \<and> roots st' = roots st \<and> history st' = history st)
       \<or> (res = Inr () \<and> holds c (roots st k) \<and> roots st' = (roots st)(k := Some row)
           \<and> history st' = history st @ [(k, Some row)])"
  using assms
  by (cases "nextReply st")
     (auto simp: roots_putItem_def send_eq split: if_splits)

lemma deleteItem_outcome:
  assumes "roots_deleteItem st k = (res, st')"
  shows "(\<exists>e. res = Inl e \<and> roots st' = roots st \<and> history st' = history st)
       \<or> (res = Inr () \<and> roots st' = (roots st)(k := None)
           \<and> history st' = history st @ [(k, None)])"
  using assms
  by (cases "nextReply st")
     (auto simp: roots_deleteItem_def send_eq split: if_splits)

lemma holding_name: "holding c = Some (n, row) \<Longrightarrow> n = nameOf c \<and> busy (Some row)"
  by (cases c) auto

lemma resume_CreateInsert:
  assumes "resume st (CreateInsert n r ps) = (c', st')"
  shows "(quiet st st' \<and> holding c' = None)
       \<or> (wrote st st' n (Some \<lparr>MerkleRoot = r, WhitelistStatus = Creating\<rparr>)
           \<and> roots st n = None
           \<and> holding c' = Some (n, \<lparr>MerkleRoot = r, WhitelistStatus = Creating\<rparr>))"
  using assms
  by (auto simp: quiet_def wrote_def split: if_splits prod.splits sum.splits
           dest!: insert_outcome)

lemma resume_CreateProofs:
  assumes "resume st (CreateProofs n r ps) = (c', st')"
  shows "quiet st st' \<and> holding c' = Some (n, \<lparr>MerkleRoot = r, WhitelistStatus = Creating\<rparr>)"
  using assms
  by (auto simp: quiet_def split: prod.splits sum.splits dest!: batchInsert_frame)

lemma resume_CreateCompensate:
  assumes "resume st (CreateCompensate n r e) = (c', st')"
  shows "holding c' = None
       \<and> (quiet st st'
          \<or> (wrote st st' n (Some \<lparr>MerkleRoot = r, WhitelistStatus = Failed\<rparr>)
              \<and> roots st n = Some \<lparr>MerkleRoot = r, WhitelistStatus = Creating\<rparr>))"
  using assms
  by (auto simp: quiet_def wrote_def creatingCondition_def
           split: prod.splits sum.splits option.splits dest!: putItem_outcome)

lemma resume_CreateComplete:
  assumes "resume st (CreateComplete n r) = (c', st')"
  shows "holding c' = None
       \<and> (quiet st st'
          \<or> (wrote st st' n (Some \<lparr>MerkleRoot = r, WhitelistStatus = Completed\<rparr>)
              \<and> roots st n = Some \<lparr>MerkleRoot = r, WhitelistStatus = Creating\<rparr>))"
  using assms
  by (auto simp: quiet_def wrote_def creatingCondition_def
           split: prod.splits sum.splits option.splits dest!: putItem_outcome)

lemma resume_DeleteRead:
  assumes "resume st (DeleteRead n) = (c', st')"
  shows "quiet st st' \<and> holding c' = None"
  using assms
  by (auto simp: quiet_def split: if_splits prod.splits sum.splits option.splits
           dest!: roots_getItem_frame)

lemma resume_DeleteFlip:
  assumes "resume st (DeleteFlip n r) = (c', st')"
  shows "(quiet st st' \<and> holding c' = None)
       \<or> (wrote st st' n (Some \<lparr>MerkleRoot = r, WhitelistStatus = Deleting\<rparr>)
           \<and> (\<exists>row. roots st n = Some row \<and> MerkleRoot row = r
                  \<and> (WhitelistStatus row = Completed \<or> WhitelistStatus row = Failed))
           \<and> holding c' = Some (n, \<lparr>MerkleRoot = r, WhitelistStatus = Deleting\<rparr>))"
  using assms
  by (auto simp: quiet_def wrote_def deletableCondition_def
           split: prod.splits sum.splits option.splits dest!: putItem_outcome)

lemma resume_DeleteQuery:
  assumes "resume st (DeleteQuery n r) = (c', st')"
  shows "quiet st st' \<and> holding c' = Some (n, \<lparr>MerkleRoot = r, WhitelistStatus = Deleting\<rparr>)"
  using assms
  by (auto simp: quiet_def split: prod.splits sum.splits dest!: paginatedQuery_frame)

lemma resume_DeleteProofs:
  assumes "resume st (DeleteProofs n r ks) = (c', st')"
  shows "quiet st st' \<and> holding c' = Some (n, \<lparr>MerkleRoot = r, WhitelistStatus = Deleting\<rparr>)"
  using assms
  by (auto simp: quiet_def split: prod.splits sum.splits dest!: batchDeleteWrite_frame)

lemma resume_DeleteRoot:
  assumes "resume st (DeleteRoot n r) = (c', st')"
  shows "(quiet st st' \<and> holding c' = Some (n, \<lparr>MerkleRoot = r, WhitelistStatus = Deleting\<rparr>))
       \<or> (wrote st st' n None \<and> holding c' = None)"
  using assms
  by (auto simp: quiet_def wrote_def split: prod.splits sum.splits dest!: deleteItem_outcome)

lemma resume_DeleteCompensate:
  assumes "resume st (DeleteCompensate n r e) = (c', st')"
  shows "holding c' = None
       \<and> (quiet st st'
          \<or> (wrote st st' n (Some \<lparr>MerkleRoot = r, WhitelistStatus = Failed\<rparr>)
              \<and> roots st n = Some \<lparr>MerkleRoot = r, WhitelistStatus = Deleting\<rparr>))"
  using assms
  by (auto simp: quiet_def wrote_def deletingCondition_def
           split: prod.splits sum.splits option.splits dest!: putItem_outcome)

text \<open>
  The effect of one step, at any store. Either the table is left as it is, and the call
  holds what it held or nothing; or the call writes the row of its name, and then
  either it was holding the row and releases it, the write being a transition of the
  diagram (or the delete of the row, which is sent without a condition); or it was
  holding nothing, the row was not busy, and the call now holds the row it has written,
  a transition of the diagram.
\<close>

lemma resume_effect:
  assumes "resume st c = (c', st')"
  shows "(quiet st st' \<and> (holding c' = holding c \<or> holding c' = None))
       \<or> (\<exists>new. wrote st st' (nameOf c) new
             \<and> ((holding c \<noteq> None \<and> holding c' = None
                  \<and> (legal (roots st (nameOf c)) new
                      \<or> (new = None \<and> (\<exists>r. c = DeleteRoot (nameOf c) r))))
                \<or> (holding c = None \<and> (\<exists>x. new = Some x \<and> holding c' = Some (nameOf c, x))
                    \<and> \<not> busy (roots st (nameOf c)) \<and> legal (roots st (nameOf c)) new)))"
proof (cases c)
  case (CreateInsert n r ps)
  from resume_CreateInsert [OF assms [unfolded CreateInsert]] show ?thesis
    unfolding CreateInsert by auto
next
  case (CreateProofs n r ps)
  from resume_CreateProofs [OF assms [unfolded CreateProofs]] show ?thesis
    unfolding CreateProofs by auto
next
  case (CreateCompensate n r e)
  from resume_CreateCompensate [OF assms [unfolded CreateCompensate]] show ?thesis
    unfolding CreateCompensate by auto
next
  case (CreateComplete n r)
  from resume_CreateComplete [OF assms [unfolded CreateComplete]] show ?thesis
    unfolding CreateComplete by auto
next
  case (DeleteRead n)
  from resume_DeleteRead [OF assms [unfolded DeleteRead]] show ?thesis
    unfolding DeleteRead by auto
next
  case (DeleteFlip n r)
  from resume_DeleteFlip [OF assms [unfolded DeleteFlip]] show ?thesis
    unfolding DeleteFlip by auto
next
  case (DeleteQuery n r)
  from resume_DeleteQuery [OF assms [unfolded DeleteQuery]] show ?thesis
    unfolding DeleteQuery by auto
next
  case (DeleteProofs n r ks)
  from resume_DeleteProofs [OF assms [unfolded DeleteProofs]] show ?thesis
    unfolding DeleteProofs by auto
next
  case (DeleteRoot n r)
  from resume_DeleteRoot [OF assms [unfolded DeleteRoot]] show ?thesis
    unfolding DeleteRoot by auto
next
  case (DeleteCompensate n r e)
  from resume_DeleteCompensate [OF assms [unfolded DeleteCompensate]] show ?thesis
    unfolding DeleteCompensate by auto
next
  case (Returned res)
  with assms show ?thesis by (auto simp: quiet_def)
qed

lemma quiet_extends: "quiet st st' \<Longrightarrow> extends st st'"
  by (simp add: quiet_def extends_refl)

lemma wrote_extends: "wrote st st' k new \<Longrightarrow> legal (roots st k) new \<Longrightarrow> extends st st'"
  by (auto simp: wrote_def extends_def intro!: exI [of _ "[(k, new)]"])

text \<open>
  A call resumed at any store, unless it is about to delete the row: whatever it writes
  is a transition of the diagram from the row as it stands.
\<close>

lemma resume_extends:
  assumes "\<And>n r. c \<noteq> DeleteRoot n r"
  shows "extends st (snd (resume st c))"
proof -
  obtain c' st' where r: "resume st c = (c', st')" by (cases "resume st c")
  from resume_effect [OF r] assms have "extends st st'"
    by (auto intro: quiet_extends wrote_extends)
  with r show ?thesis by simp
qed

subsection \<open>Interleaved calls\<close>

lemma owned_step:
  assumes own: "owned st calls" and i: "i < length calls"
      and r: "resume st (calls ! i) = (c', st')"
  shows "owned st' (calls[i := c']) \<and> extends st st'"
proof -
  let ?c = "calls ! i"
  let ?m = "nameOf ?c"
  note eff = resume_effect [OF r]
  have held: "roots st n = Some row" if "k < length calls" "holding (calls ! k) = Some (n, row)"
    for k n row
    using own that by (auto simp: owned_def)
  have uniq: "holding (calls ! j) \<noteq> Some (n, row')"
    if "k < length calls" "holding (calls ! k) = Some (n, row)" "j < length calls" "j \<noteq> k"
    for k j n row row'
    using own that unfolding owned_def by blast
  from eff consider
      (same) "quiet st st'" "holding c' = holding ?c"
    | (none) "quiet st st'" "holding c' = None"
    | (release) new where "wrote st st' ?m new" "holding ?c \<noteq> None" "holding c' = None"
        "legal (roots st ?m) new \<or> (new = None \<and> (\<exists>r. ?c = DeleteRoot ?m r))"
    | (acquire) new x where "wrote st st' ?m new" "holding ?c = None" "new = Some x"
        "holding c' = Some (?m, x)" "\<not> busy (roots st ?m)" "legal (roots st ?m) new"
    by (elim disjE conjE exE) blast+
  then show ?thesis
  proof cases
    case same
    note q = same(1) and h = same(2)
    have "owned st' (calls[i := c'])"
      unfolding owned_def
    proof (intro allI impI)
      fix k n row
      assume k: "k < length (calls[i := c'])" and hk: "holding (calls[i := c'] ! k) = Some (n, row)"
      from k have k': "k < length calls" by simp
      from hk h have hk': "holding (calls ! k) = Some (n, row)"
        by (cases "k = i") (use i in simp_all)
      have "roots st' n = Some row" using held [OF k' hk'] q by (simp add: quiet_def)
      moreover have "\<forall>j<length (calls[i := c']). j \<noteq> k \<longrightarrow>
                       (\<forall>row'. holding (calls[i := c'] ! j) \<noteq> Some (n, row'))"
      proof (intro allI impI)
        fix j row'
        assume j: "j < length (calls[i := c'])" and jk: "j \<noteq> k"
        from j have j': "j < length calls" by simp
        have "holding (calls[i := c'] ! j) = holding (calls ! j)"
          using h i by (cases "j = i") simp_all
        with uniq [OF k' hk' j' jk] show "holding (calls[i := c'] ! j) \<noteq> Some (n, row')"
          by simp
      qed
      ultimately show "roots st' n = Some row
          \<and> (\<forall>j<length (calls[i := c']). j \<noteq> k \<longrightarrow>
                 (\<forall>row'. holding (calls[i := c'] ! j) \<noteq> Some (n, row')))"
        by simp
    qed
    with q show ?thesis by (simp add: quiet_extends)
  next
    case none
    note q = none(1) and h = none(2)
    have "owned st' (calls[i := c'])"
      unfolding owned_def
    proof (intro allI impI)
      fix k n row
      assume k: "k < length (calls[i := c'])" and hk: "holding (calls[i := c'] ! k) = Some (n, row)"
      from k have k': "k < length calls" by simp
      from hk h i have ki: "k \<noteq> i" by auto
      with hk have hk': "holding (calls ! k) = Some (n, row)" by simp
      have "roots st' n = Some row" using held [OF k' hk'] q by (simp add: quiet_def)
      moreover have "\<forall>j<length (calls[i := c']). j \<noteq> k \<longrightarrow>
                       (\<forall>row'. holding (calls[i := c'] ! j) \<noteq> Some (n, row'))"
      proof (intro allI impI)
        fix j row'
        assume j: "j < length (calls[i := c'])" and jk: "j \<noteq> k"
        from j have j': "j < length calls" by simp
        show "holding (calls[i := c'] ! j) \<noteq> Some (n, row')"
        proof (cases "j = i")
          case True
          with h i show ?thesis by simp
        next
          case False
          with uniq [OF k' hk' j' jk] show ?thesis by simp
        qed
      qed
      ultimately show "roots st' n = Some row
          \<and> (\<forall>j<length (calls[i := c']). j \<noteq> k \<longrightarrow>
                 (\<forall>row'. holding (calls[i := c'] ! j) \<noteq> Some (n, row')))"
        by simp
    qed
    with q show ?thesis by (simp add: quiet_extends)
  next
    case (release new)
    note w = release(1) and hc = release(2) and h = release(3) and lg = release(4)
    from hc obtain n0 row0 where h0: "holding ?c = Some (n0, row0)" by auto
    from holding_name [OF h0] have n0: "n0 = ?m" by simp
    have leg: "legal (roots st ?m) new"
    proof (rule disjE [OF lg])
      assume "new = None \<and> (\<exists>r. ?c = DeleteRoot ?m r)"
      then obtain r where n: "new = None" and d: "?c = DeleteRoot ?m r" by blast
      from d have "holding ?c = Some (?m, \<lparr>MerkleRoot = r, WhitelistStatus = Deleting\<rparr>)"
        by (metis holding.simps(6))
      from held [OF i this] n show ?thesis by simp
    qed
    have "owned st' (calls[i := c'])"
      unfolding owned_def
    proof (intro allI impI)
      fix k n row
      assume k: "k < length (calls[i := c'])" and hk: "holding (calls[i := c'] ! k) = Some (n, row)"
      from k have k': "k < length calls" by simp
      from hk h i have ki: "k \<noteq> i" by auto
      with hk have hk': "holding (calls ! k) = Some (n, row)" by simp
      from uniq [OF i h0 k' ki] hk' n0 have nm: "n \<noteq> ?m" by auto
      have "roots st' n = Some row" using held [OF k' hk'] w nm by (simp add: wrote_def)
      moreover have "\<forall>j<length (calls[i := c']). j \<noteq> k \<longrightarrow>
                       (\<forall>row'. holding (calls[i := c'] ! j) \<noteq> Some (n, row'))"
      proof (intro allI impI)
        fix j row'
        assume j: "j < length (calls[i := c'])" and jk: "j \<noteq> k"
        from j have j': "j < length calls" by simp
        show "holding (calls[i := c'] ! j) \<noteq> Some (n, row')"
        proof (cases "j = i")
          case True
          with h i show ?thesis by simp
        next
          case False
          with uniq [OF k' hk' j' jk] show ?thesis by simp
        qed
      qed
      ultimately show "roots st' n = Some row
          \<and> (\<forall>j<length (calls[i := c']). j \<noteq> k \<longrightarrow>
                 (\<forall>row'. holding (calls[i := c'] ! j) \<noteq> Some (n, row')))"
        by simp
    qed
    with wrote_extends [OF w leg] show ?thesis by simp
  next
    case (acquire new x)
    note w = acquire(1) and hc = acquire(2) and nx = acquire(3) and h = acquire(4)
      and nb = acquire(5) and leg = acquire(6)
    have other: "n \<noteq> ?m" if "k < length calls" "holding (calls ! k) = Some (n, row)" for k n row
    proof
      assume "n = ?m"
      with held [OF that] have "roots st ?m = Some row" by simp
      moreover from holding_name [OF that(2)] have "busy (Some row)" by simp
      ultimately show False using nb by simp
    qed
    have "owned st' (calls[i := c'])"
      unfolding owned_def
    proof (intro allI impI)
      fix k n row
      assume k: "k < length (calls[i := c'])" and hk: "holding (calls[i := c'] ! k) = Some (n, row)"
      from k have k': "k < length calls" by simp
      show "roots st' n = Some row
          \<and> (\<forall>j<length (calls[i := c']). j \<noteq> k \<longrightarrow>
                 (\<forall>row'. holding (calls[i := c'] ! j) \<noteq> Some (n, row')))"
      proof (cases "k = i")
        case True
        with hk h i have n: "n = ?m" and row: "row = x" by simp_all
        have "roots st' n = Some row" using w n row nx by (simp add: wrote_def)
        moreover have "\<forall>j<length (calls[i := c']). j \<noteq> k \<longrightarrow>
                       (\<forall>row'. holding (calls[i := c'] ! j) \<noteq> Some (n, row'))"
        proof (intro allI impI)
          fix j row'
          assume j: "j < length (calls[i := c'])" and jk: "j \<noteq> k"
          from j have j': "j < length calls" by simp
          from jk True have ji: "j \<noteq> i" by simp
          show "holding (calls[i := c'] ! j) \<noteq> Some (n, row')"
          proof
            assume "holding (calls[i := c'] ! j) = Some (n, row')"
            with ji have "holding (calls ! j) = Some (n, row')" by simp
            from other [OF j' this] n show False by simp
          qed
        qed
        ultimately show ?thesis by simp
      next
        case False
        with hk have hk': "holding (calls ! k) = Some (n, row)" by simp
        from other [OF k' hk'] have nm: "n \<noteq> ?m" .
        have "roots st' n = Some row" using held [OF k' hk'] w nm by (simp add: wrote_def)
        moreover have "\<forall>j<length (calls[i := c']). j \<noteq> k \<longrightarrow>
                       (\<forall>row'. holding (calls[i := c'] ! j) \<noteq> Some (n, row'))"
        proof (intro allI impI)
          fix j row'
          assume j: "j < length (calls[i := c'])" and jk: "j \<noteq> k"
          from j have j': "j < length calls" by simp
          show "holding (calls[i := c'] ! j) \<noteq> Some (n, row')"
          proof (cases "j = i")
            case True
            with h i nm show ?thesis by simp
          next
            case ji: False
            with uniq [OF k' hk' j' jk] show ?thesis by simp
          qed
        qed
        ultimately show ?thesis by simp
      qed
    qed
    with wrote_extends [OF w leg] show ?thesis by simp
  qed
qed

lemma interleave_extends:
  "owned st calls \<Longrightarrow> extends st (snd (interleave st calls schedule))"
proof (induction schedule arbitrary: st calls)
  case Nil
  show ?case by (simp add: extends_refl)
next
  case (Cons i schedule)
  show ?case
  proof (cases "i < length calls")
    case False
    with Cons show ?thesis by simp
  next
    case True
    obtain c' st' where r: "resume st (calls ! i) = (c', st')"
      by (cases "resume st (calls ! i)")
    from owned_step [OF Cons.prems True r]
    have o: "owned st' (calls[i := c'])" and e: "extends st st'" by simp_all
    from Cons.IH [OF o] have "extends st' (snd (interleave st' (calls[i := c']) schedule))" .
    with e have "extends st (snd (interleave st' (calls[i := c']) schedule))"
      by (rule extends_trans)
    with True r show ?thesis by simp
  qed
qed

lemma owned_start: "owned st (map start operations)"
proof -
  have "holding (start op) = None" for op by (cases op) simp_all
  then show ?thesis by (simp add: owned_def)
qed

text \<open>
  Claim C9. Let any number of CreateTree and DeleteTree calls, on any names, run
  concurrently from any store, their awaits interleaved in any order, with any provider
  behaviour. The writes the calls make to the roots table are exactly the entries \<open>ws\<close>
  they add to the history, and every one of them is a transition of the diagram from
  the row as it was just before that write: absent to CREATING, CREATING to COMPLETED or
  FAILED, COMPLETED or FAILED to DELETING, DELETING to FAILED or absent, with the
  MerkleRoot value kept by every transition between two rows. Moreover every write of a
  row after the initial insert is conditioned on the row it rewrites: a call at any
  point other than the delete of the row, resumed at any store at all (whatever has
  written to the table meanwhile), writes nothing or makes such a transition, keeping
  MerkleRoot. In particular the put of (root, COMPLETED) is carried out when the row is
  (root, CREATING) and refused with ConditionalCheckFailedException when it is anything
  else, and the put of (root, DELETING) is carried out when the row is (root, COMPLETED)
  or (root, FAILED) and refused when it is anything else (the two compensating puts are
  the matter of claims C3 and C8). The delete of the row alone is sent without a
  condition, as in the transition list of section 4.4; by the first part it is, in every
  interleaving of the calls, a transition from DELETING to absent.
\<close>

theorem C9_state_machine:
  "(\<exists>ws. history (snd (interleave st (map start operations) schedule)) = history st @ ws
         \<and> follows (roots st) ws
         \<and> roots (snd (interleave st (map start operations) schedule)) = replay (roots st) ws)
   \<and> ((\<forall>n r. c \<noteq> DeleteRoot n r) \<longrightarrow>
        (\<exists>ws. history (snd (resume st c)) = history st @ ws
              \<and> follows (roots st) ws
              \<and> roots (snd (resume st c)) = replay (roots st) ws))
   \<and> (\<not> invalidPartitionKeyValue n \<longrightarrow>
        (\<not> isThrow (nextReply s)
           \<and> roots s n = Some \<lparr>MerkleRoot = r, WhitelistStatus = Creating\<rparr> \<longrightarrow>
         resume s (CreateComplete n r) =
           (Returned (Inr ()),
            writeRoot (consume s) n (Some \<lparr>MerkleRoot = r, WhitelistStatus = Completed\<rparr>)))
      \<and> (\<not> isThrow (nextReply s)
           \<and> roots s n \<noteq> Some \<lparr>MerkleRoot = r, WhitelistStatus = Creating\<rparr> \<longrightarrow>
         resume s (CreateComplete n r) =
           (Returned (Inl (NoSqlError ''ConditionalCheckFailedException''
                             ''The conditional request failed'')), consume s))
      \<and> (\<not> isThrow (nextReply s)
           \<and> (roots s n = Some \<lparr>MerkleRoot = r, WhitelistStatus = Completed\<rparr>
               \<or> roots s n = Some \<lparr>MerkleRoot = r, WhitelistStatus = Failed\<rparr>) \<longrightarrow>
         resume s (DeleteFlip n r) =
           (DeleteQuery n r,
            writeRoot (consume s) n (Some \<lparr>MerkleRoot = r, WhitelistStatus = Deleting\<rparr>)))
      \<and> (\<not> isThrow (nextReply s)
           \<and> roots s n \<noteq> Some \<lparr>MerkleRoot = r, WhitelistStatus = Completed\<rparr>
           \<and> roots s n \<noteq> Some \<lparr>MerkleRoot = r, WhitelistStatus = Failed\<rparr> \<longrightarrow>
         resume s (DeleteFlip n r) =
           (Returned (Inl (NoSqlError ''ConditionalCheckFailedException''
                             ''The conditional request failed'')), consume s)))"
proof -
  have p1: "\<exists>ws. history (snd (interleave st (map start operations) schedule)) = history st @ ws
         \<and> follows (roots st) ws
         \<and> roots (snd (interleave st (map start operations) schedule)) = replay (roots st) ws"
    using interleave_extends [OF owned_start, of st operations schedule]
    by (simp add: extends_def)
  have p2: "(\<forall>n r. c \<noteq> DeleteRoot n r) \<longrightarrow>
        (\<exists>ws. history (snd (resume st c)) = history st @ ws
              \<and> follows (roots st) ws
              \<and> roots (snd (resume st c)) = replay (roots st) ws)"
    using resume_extends [of c st]
    by (simp add: extends_def)
  have p3: "\<not> invalidPartitionKeyValue n \<longrightarrow>
        (\<not> isThrow (nextReply s)
           \<and> roots s n = Some \<lparr>MerkleRoot = r, WhitelistStatus = Creating\<rparr> \<longrightarrow>
         resume s (CreateComplete n r) =
           (Returned (Inr ()),
            writeRoot (consume s) n (Some \<lparr>MerkleRoot = r, WhitelistStatus = Completed\<rparr>)))
      \<and> (\<not> isThrow (nextReply s)
           \<and> roots s n \<noteq> Some \<lparr>MerkleRoot = r, WhitelistStatus = Creating\<rparr> \<longrightarrow>
         resume s (CreateComplete n r) =
           (Returned (Inl (NoSqlError ''ConditionalCheckFailedException''
                             ''The conditional request failed'')), consume s))
      \<and> (\<not> isThrow (nextReply s)
           \<and> (roots s n = Some \<lparr>MerkleRoot = r, WhitelistStatus = Completed\<rparr>
               \<or> roots s n = Some \<lparr>MerkleRoot = r, WhitelistStatus = Failed\<rparr>) \<longrightarrow>
         resume s (DeleteFlip n r) =
           (DeleteQuery n r,
            writeRoot (consume s) n (Some \<lparr>MerkleRoot = r, WhitelistStatus = Deleting\<rparr>)))
      \<and> (\<not> isThrow (nextReply s)
           \<and> roots s n \<noteq> Some \<lparr>MerkleRoot = r, WhitelistStatus = Completed\<rparr>
           \<and> roots s n \<noteq> Some \<lparr>MerkleRoot = r, WhitelistStatus = Failed\<rparr> \<longrightarrow>
         resume s (DeleteFlip n r) =
           (Returned (Inl (NoSqlError ''ConditionalCheckFailedException''
                             ''The conditional request failed'')), consume s))"
  proof
    assume v: "\<not> invalidPartitionKeyValue n"
    note a = resume_CreateComplete_cases [OF v, of s r]
    note b = resume_DeleteFlip_cases [OF v, of s r]
    show "(\<not> isThrow (nextReply s)
           \<and> roots s n = Some \<lparr>MerkleRoot = r, WhitelistStatus = Creating\<rparr> \<longrightarrow>
         resume s (CreateComplete n r) =
           (Returned (Inr ()),
            writeRoot (consume s) n (Some \<lparr>MerkleRoot = r, WhitelistStatus = Completed\<rparr>)))
      \<and> (\<not> isThrow (nextReply s)
           \<and> roots s n \<noteq> Some \<lparr>MerkleRoot = r, WhitelistStatus = Creating\<rparr> \<longrightarrow>
         resume s (CreateComplete n r) =
           (Returned (Inl (NoSqlError ''ConditionalCheckFailedException''
                             ''The conditional request failed'')), consume s))
      \<and> (\<not> isThrow (nextReply s)
           \<and> (roots s n = Some \<lparr>MerkleRoot = r, WhitelistStatus = Completed\<rparr>
               \<or> roots s n = Some \<lparr>MerkleRoot = r, WhitelistStatus = Failed\<rparr>) \<longrightarrow>
         resume s (DeleteFlip n r) =
           (DeleteQuery n r,
            writeRoot (consume s) n (Some \<lparr>MerkleRoot = r, WhitelistStatus = Deleting\<rparr>)))
      \<and> (\<not> isThrow (nextReply s)
           \<and> roots s n \<noteq> Some \<lparr>MerkleRoot = r, WhitelistStatus = Completed\<rparr>
           \<and> roots s n \<noteq> Some \<lparr>MerkleRoot = r, WhitelistStatus = Failed\<rparr> \<longrightarrow>
         resume s (DeleteFlip n r) =
           (Returned (Inl (NoSqlError ''ConditionalCheckFailedException''
                             ''The conditional request failed'')), consume s))"
      by (intro conjI) (rule a [THEN conjunct1] a [THEN conjunct2] b [THEN conjunct1]
          b [THEN conjunct2])+
  qed
  show ?thesis
    by (intro conjI) (rule p1 p2 p3)+
qed

theorem C9_state_machine_witness:
  "history (snd (interleave emptyStore (map start raceOperations) raceSchedule))
     = [(''w0'', Some \<lparr>MerkleRoot = ''0x02'', WhitelistStatus = Creating\<rparr>),
        (''w0'', Some \<lparr>MerkleRoot = ''0x02'', WhitelistStatus = Completed\<rparr>),
        (''w0'', Some \<lparr>MerkleRoot = ''0x02'', WhitelistStatus = Deleting\<rparr>),
        (''w0'', None)]
   \<and> follows (roots emptyStore)
         [(''w0'', Some \<lparr>MerkleRoot = ''0x02'', WhitelistStatus = Creating\<rparr>),
          (''w0'', Some \<lparr>MerkleRoot = ''0x02'', WhitelistStatus = Completed\<rparr>),
          (''w0'', Some \<lparr>MerkleRoot = ''0x02'', WhitelistStatus = Deleting\<rparr>),
          (''w0'', None)]
   \<and> fst (interleave emptyStore (map start raceOperations) raceSchedule)
       = [Returned (Inr ()),
          Returned (Inl (NoSqlError ''DuplicateItemException''
                           ''Duplicate primary key exists in table'')),
          Returned (Inr ()),
          Returned (Inl (NoSqlError ''ConditionalCheckFailedException''
                           ''The conditional request failed''))]
   \<and> history (snd (resume completedStore (CreateComplete ''w0'' ''0x02''))) = []
   \<and> roots (snd (resume completedStore (CreateComplete ''w0'' ''0x02''))) ''w0''
       = Some \<lparr>MerkleRoot = ''0x01'', WhitelistStatus = Completed\<rparr>
   \<and> resume completedStore (CreateComplete ''w0'' ''0x02'')
       = (Returned (Inl (NoSqlError ''ConditionalCheckFailedException''
                           ''The conditional request failed'')), consume completedStore)
   \<and> resume completedStore (DeleteFlip ''w0'' ''0x01'')
       = (DeleteQuery ''w0'' ''0x01'',
          writeRoot (consume completedStore) ''w0''
            (Some \<lparr>MerkleRoot = ''0x01'', WhitelistStatus = Deleting\<rparr>))"
proof -
  let ?run = "snd (interleave emptyStore (map start raceOperations) raceSchedule)"
  let ?c = "CreateComplete ''w0'' ''0x02''"
  have h: "history ?run
     = [(''w0'', Some \<lparr>MerkleRoot = ''0x02'', WhitelistStatus = Creating\<rparr>),
        (''w0'', Some \<lparr>MerkleRoot = ''0x02'', WhitelistStatus = Completed\<rparr>),
        (''w0'', Some \<lparr>MerkleRoot = ''0x02'', WhitelistStatus = Deleting\<rparr>),
        (''w0'', None)]"
    by code_simp
  have outcome: "fst (interleave emptyStore (map start raceOperations) raceSchedule)
       = [Returned (Inr ()),
          Returned (Inl (NoSqlError ''DuplicateItemException''
                           ''Duplicate primary key exists in table'')),
          Returned (Inr ()),
          Returned (Inl (NoSqlError ''ConditionalCheckFailedException''
                           ''The conditional request failed''))]"
    by code_simp
  have g: "history (snd (resume completedStore ?c)) = []"
    by code_simp
  have e: "history emptyStore = []" "history completedStore = []"
    by (simp_all add: completedStore_def emptyStore_def)
  have row: "roots completedStore ''w0''
               = Some \<lparr>MerkleRoot = ''0x01'', WhitelistStatus = Completed\<rparr>"
    by (simp add: completedStore_def emptyStore_def)
  have d: "\<forall>n r. ?c \<noteq> DeleteRoot n r"
    by simp
  from C9_state_machine [where st = emptyStore and operations = raceOperations
      and schedule = raceSchedule, THEN conjunct1]
  obtain ws where ws: "history ?run = history emptyStore @ ws"
    and f: "follows (roots emptyStore) ws"
    by blast
  from ws e have "ws = history ?run" by simp
  with f have f1: "follows (roots emptyStore) (history ?run)" by simp
  from C9_state_machine [where st = completedStore and c = ?c,
      THEN conjunct2, THEN conjunct1, THEN mp, OF d]
  obtain ws' where ws': "history (snd (resume completedStore ?c)) = history completedStore @ ws'"
    and r': "roots (snd (resume completedStore ?c)) = replay (roots completedStore) ws'"
    by blast
  from ws' e g have "ws' = []" by simp
  with r' row have r2: "roots (snd (resume completedStore ?c)) ''w0''
               = Some \<lparr>MerkleRoot = ''0x01'', WhitelistStatus = Completed\<rparr>"
    by simp
  from f1 have f3: "follows (roots emptyStore)
         [(''w0'', Some \<lparr>MerkleRoot = ''0x02'', WhitelistStatus = Creating\<rparr>),
          (''w0'', Some \<lparr>MerkleRoot = ''0x02'', WhitelistStatus = Completed\<rparr>),
          (''w0'', Some \<lparr>MerkleRoot = ''0x02'', WhitelistStatus = Deleting\<rparr>),
          (''w0'', None)]"
    by (simp only: h)
  have v: "\<not> invalidPartitionKeyValue ''w0''" by code_simp
  have o1: "\<not> isThrow (nextReply completedStore)
            \<and> roots completedStore ''w0''
                \<noteq> Some \<lparr>MerkleRoot = ''0x02'', WhitelistStatus = Creating\<rparr>"
    by (simp add: completedStore_def emptyStore_def nextReply_def)
  have o2: "\<not> isThrow (nextReply completedStore)
            \<and> (roots completedStore ''w0''
                  = Some \<lparr>MerkleRoot = ''0x01'', WhitelistStatus = Completed\<rparr>
                \<or> roots completedStore ''w0''
                    = Some \<lparr>MerkleRoot = ''0x01'', WhitelistStatus = Failed\<rparr>)"
    by (simp add: completedStore_def emptyStore_def nextReply_def)
  note refused = C9_state_machine [where n = "''w0''" and s = completedStore
      and r = "''0x02''", THEN conjunct2, THEN conjunct2, THEN mp, OF v,
      THEN conjunct2, THEN conjunct1, THEN mp, OF o1]
  note flipped = C9_state_machine [where n = "''w0''" and s = completedStore
      and r = "''0x01''", THEN conjunct2, THEN conjunct2, THEN mp, OF v,
      THEN conjunct2, THEN conjunct2, THEN conjunct1, THEN mp, OF o2]
  show ?thesis
    by (intro conjI h f3 outcome g r2 refused flipped)
qed

section \<open>The batch writes\<close>

text \<open>
  Claim C5, evaluated where the code departs from it. The provider processes the one
  item of a \<^verbatim>\<open>batchPutWrite\<close> and answers with an empty \<^verbatim>\<open>UnprocessedItems\<close> map:
  nothing is left unprocessed, yet the call does not leave its loop and return; it
  raises a TypeError, with the item written. On the same answer \<^verbatim>\<open>batchDeleteWrite\<close>
  leaves its loop and returns.
\<close>

theorem C5_batchPutWrite_empty_map:
  "nextReply emptyStore = Respond
   \<and> batchWriteReply Respond [exampleProof] = ([exampleProof], NoTableEntry)
   \<and> fst (proofs_batchPutWrite emptyStore ''w0'' [exampleProof] BatchWriteDefaultMaxRetries)
       = Inl (TypeError ''Cannot read properties of undefined (reading length)'')
   \<and> proofs (snd (proofs_batchPutWrite emptyStore ''w0'' [exampleProof]
                     BatchWriteDefaultMaxRetries)) = [(''w0'', exampleProof)]
   \<and> nextReply proofsStore = Respond
   \<and> fst (proofs_batchDeleteWrite proofsStore ''w0'' [lowerForm] BatchWriteDefaultMaxRetries)
       = Inr ()
   \<and> proofs (snd (proofs_batchDeleteWrite proofsStore ''w0'' [lowerForm]
                     BatchWriteDefaultMaxRetries)) = []"
  by code_simp

section \<open>The Merkle tree and its proofs\<close>

lemma standardNodeHash_commute: "standardNodeHash d a b = standardNodeHash d b a"
  by (cases a b rule: linorder_cases) (auto simp: standardNodeHash_def)

lemma commutativeKeccak256_eq: "commutativeKeccak256 d a b = standardNodeHash d a b"
  by (cases a b rule: linorder_cases)
     (auto simp: standardNodeHash_def commutativeKeccak256_def)

lemma verify_processProof:
  "MerkleProof_verify d proof root leaf = (processProof d leaf proof = root)"
proof -
  have "commutativeKeccak256 d = standardNodeHash d"
    by (intro ext) (rule commutativeKeccak256_eq)
  then show ?thesis
    by (simp add: MerkleProof_verify_def processProof_def)
qed

lemma fillNodes_length [simp]: "length (fillNodes d k t) = length t"
  by (induction k arbitrary: t) simp_all

lemma fillNodes_above: "k \<le> j \<Longrightarrow> fillNodes d k t ! j = t ! j"
  by (induction k arbitrary: t) simp_all

lemma fillNodes_node:
  "k \<le> length t \<Longrightarrow> i < k \<Longrightarrow>
     fillNodes d k t ! i
       = standardNodeHash d (fillNodes d k t ! (2 * i + 1)) (fillNodes d k t ! (2 * i + 2))"
proof (induction k arbitrary: t)
  case 0
  then show ?case by simp
next
  case (Suc k)
  let ?t' = "t[k := standardNodeHash d (t ! (2 * k + 1)) (t ! (2 * k + 2))]"
  show ?case
  proof (cases "i < k")
    case True
    from Suc.IH [of ?t'] Suc.prems True show ?thesis by simp
  next
    case False
    with Suc.prems have ik: "i = k" by simp
    have "fillNodes d k ?t' ! k = ?t' ! k"
      by (rule fillNodes_above) simp
    moreover have "fillNodes d k ?t' ! (2 * k + 1) = ?t' ! (2 * k + 1)"
      by (rule fillNodes_above) simp
    moreover have "fillNodes d k ?t' ! (2 * k + 2) = ?t' ! (2 * k + 2)"
      by (rule fillNodes_above) simp
    ultimately show ?thesis
      using Suc.prems ik by simp
  qed
qed

lemma makeMerkleTree_wellFormed:
  assumes "leaves \<noteq> []"
  shows "\<exists>t. makeMerkleTree d leaves = Inr t \<and> wellFormed d (length leaves) t
             \<and> (\<forall>j<length leaves. t ! (2 * length leaves - 2 - j) = leaves ! j)"
proof -
  let ?n = "length leaves"
  let ?init = "replicate (?n - 1) 0 @ rev leaves"
  let ?t = "fillNodes d (?n - 1) ?init"
  from assms have n: "0 < ?n" by simp
  have mk: "makeMerkleTree d leaves = Inr ?t"
    using n by (simp add: makeMerkleTree_def)
  have len: "length ?t = 2 * ?n - 1"
    using n by simp
  have node: "?t ! i = standardNodeHash d (?t ! (2 * i + 1)) (?t ! (2 * i + 2))"
    if "i < ?n - 1" for i
    using that by (intro fillNodes_node) simp_all
  have leaf: "?t ! (2 * ?n - 2 - j) = leaves ! j" if "j < ?n" for j
  proof -
    have "?t ! (2 * ?n - 2 - j) = ?init ! (2 * ?n - 2 - j)"
      using that by (intro fillNodes_above) arith
    also have "\<dots> = rev leaves ! (?n - 1 - j)"
    proof -
      from that have a: "\<not> 2 * ?n - 2 - j < length (replicate (?n - 1) (0::hash))"
        by simp
      from that have b: "2 * ?n - 2 - j - length (replicate (?n - 1) (0::hash)) = ?n - 1 - j"
        by simp
      show ?thesis
        by (simp only: nth_append a b if_False)
    qed
    also have "\<dots> = leaves ! j"
      using that by (simp add: rev_nth)
    finally show ?thesis .
  qed
  from mk n len node leaf show ?thesis
    by (auto simp: wellFormed_def)
qed

lemma proof_verifies:
  assumes wf: "wellFormed d n t"
  shows "index < length t \<Longrightarrow> processProof d (t ! index) (getProofLoop t index) = t ! 0"
proof (induction index rule: less_induct)
  case (less index)
  show ?case
  proof (cases "index = 0")
    case True
    then show ?thesis
      by (subst getProofLoop.simps) (simp add: processProof_def)
  next
    case False
    let ?p = "parentIndex index"
    from wf less.prems have n: "index < 2 * n - 1" by (simp add: wellFormed_def)
    from False n have p: "?p < n - 1" "?p < index"
      by (simp_all add: parentIndex_def)
    from wf p(1) have node: "t ! ?p = standardNodeHash d (t ! (2 * ?p + 1)) (t ! (2 * ?p + 2))"
      by (simp add: wellFormed_def)
    have step: "standardNodeHash d (t ! index) (t ! siblingIndex index) = t ! ?p"
    proof (cases "even index")
      case True
      with False have "index = 2 * ?p + 2" "siblingIndex index = 2 * ?p + 1"
        by (auto simp: parentIndex_def siblingIndex_def elim!: evenE)
      with node show ?thesis
        by (simp add: standardNodeHash_commute)
    next
      case odd: False
      then have "index = 2 * ?p + 1" "siblingIndex index = 2 * ?p + 2"
        by (auto simp: parentIndex_def siblingIndex_def elim!: oddE)
      with node show ?thesis by simp
    qed
    from p less.prems have "?p < length t" by simp
    from less.IH [OF p(2) this] have "processProof d (t ! ?p) (getProofLoop t ?p) = t ! 0" .
    with step False show ?thesis
      by (subst getProofLoop.simps) (simp add: processProof_def)
  qed
qed

lemma assign_step:
  "assign sz acc (j, v, h) = acc[v := (fst (acc ! v), sz - j - 1)]"
  by (simp add: assign_def)

lemma assign_length [simp]: "length (foldl (assign sz) acc xs) = length acc"
  by (induction xs arbitrary: acc) (auto simp: assign_step)

lemma assign_fst:
  "i < length acc \<Longrightarrow> fst (foldl (assign sz) acc xs ! i) = fst (acc ! i)"
proof (induction xs arbitrary: acc)
  case Nil
  then show ?case by simp
next
  case (Cons x xs)
  obtain j v h where x: "x = (j, v, h)" by (cases x) auto
  let ?acc = "acc[v := (fst (acc ! v), sz - j - 1)]"
  from Cons.prems have "fst (?acc ! i) = fst (acc ! i)"
    by (cases "i = v") simp_all
  with Cons.IH [of ?acc] Cons.prems show ?case
    by (simp add: x assign_step)
qed

lemma assign_other:
  "v \<notin> set (map (\<lambda>x. fst (snd x)) xs) \<Longrightarrow> foldl (assign sz) acc xs ! v = acc ! v"
proof (induction xs arbitrary: acc)
  case Nil
  then show ?case by simp
next
  case (Cons x xs)
  obtain j v' h where x: "x = (j, v', h)" by (cases x) auto
  with Cons.prems have "v' \<noteq> v" and "v \<notin> set (map (\<lambda>x. fst (snd x)) xs)" by auto
  with Cons.IH [of "acc[v' := (fst (acc ! v'), sz - j - 1)]"] show ?case
    by (simp add: x assign_step)
qed

lemma assign_hit:
  "distinct (map (\<lambda>x. fst (snd x)) xs) \<Longrightarrow> (j, v, h) \<in> set xs \<Longrightarrow> v < length acc \<Longrightarrow>
     snd (foldl (assign sz) acc xs ! v) = sz - j - 1"
proof (induction xs arbitrary: acc)
  case Nil
  then show ?case by simp
next
  case (Cons x xs)
  obtain j' v' h' where x: "x = (j', v', h')" by (cases x) auto
  let ?acc = "acc[v' := (fst (acc ! v'), sz - j' - 1)]"
  show ?case
  proof (cases "(j, v, h) = x")
    case True
    with x have e: "j' = j" "v' = v" by simp_all
    from Cons.prems(1) x e have "v \<notin> set (map (\<lambda>x. fst (snd x)) xs)" by simp
    from assign_other [OF this, of sz ?acc] Cons.prems(3) e show ?thesis
      by (simp add: x assign_step)
  next
    case False
    with Cons.prems(2) have m: "(j, v, h) \<in> set xs" by simp
    from Cons.prems(1) have dd: "distinct (map (\<lambda>x. fst (snd x)) xs)" by simp
    from Cons.prems(3) have ll: "v < length ?acc" by simp
    from dd m ll have "snd (foldl (assign sz) ?acc xs ! v) = sz - j - 1"
      by (rule Cons.IH)
    then show ?thesis by (simp add: x assign_step)
  qed
qed

lemma sorted_facts:
  fixes hs :: "hash list"
  defines "srt \<equiv> sort_key snd (zip [0..<length hs] hs)"
  shows "length srt = length hs"
    and "\<And>p. p \<in> set srt \<Longrightarrow> fst p < length hs \<and> snd p = hs ! fst p"
    and "distinct (map fst srt)"
    and "\<And>i. i < length hs \<Longrightarrow> \<exists>j<length hs. srt ! j = (i, hs ! i)"
proof -
  show len: "length srt = length hs"
    by (simp add: srt_def)
  have set: "set srt = set (zip [0..<length hs] hs)"
    by (simp add: srt_def)
  show el: "fst p < length hs \<and> snd p = hs ! fst p" if "p \<in> set srt" for p
  proof -
    from that set have "p \<in> set (zip [0..<length hs] hs)" by simp
    then obtain k where "[0..<length hs] ! k = fst p" "hs ! k = snd p" "k < length hs"
      by (auto simp: in_set_zip)
    then show ?thesis by simp
  qed
  have "distinct srt"
    by (simp add: srt_def distinct_zipI1)
  moreover have "inj_on fst (set srt)"
    by (rule inj_onI) (metis el prod_eqI)
  ultimately show "distinct (map fst srt)"
    by (simp add: distinct_map)
  show "\<exists>j<length hs. srt ! j = (i, hs ! i)" if "i < length hs" for i
  proof -
    from that have "(i, hs ! i) \<in> set (zip [0..<length hs] hs)"
      by (simp add: in_set_zip) (rule exI [of _ i], simp)
    with set have "(i, hs ! i) \<in> set srt" by simp
    then show ?thesis
      by (metis in_set_conv_nth len)
  qed
qed

lemma StandardMerkleTree_of_facts:
  assumes "vs \<noteq> []"
  shows "\<exists>t. StandardMerkleTree_of d vs = Inr t
           \<and> wellFormed d (length vs) (tree t)
           \<and> length (indexedValues t) = length vs
           \<and> (\<forall>i<length vs. fst (indexedValues t ! i) = vs ! i
                 \<and> isLeafNode (tree t) (snd (indexedValues t ! i))
                 \<and> tree t ! snd (indexedValues t ! i) = standardLeafHash d (vs ! i))"
proof -
  let ?n = "length vs"
  let ?hs = "map (standardLeafHash d) vs"
  let ?sorted = "sort_key snd (zip [0..<length ?hs] ?hs)"
  note sf = sorted_facts [where hs = ?hs]
  from sf(1) have ls: "length ?sorted = ?n" by simp
  with assms have "length (map snd ?sorted) \<noteq> 0" by simp
  then have ne: "map snd ?sorted \<noteq> []" by (simp only: length_0_conv not_False_eq_True)
  from makeMerkleTree_wellFormed [OF ne, of d] sf(1)
  obtain t where mk: "makeMerkleTree d (map snd ?sorted) = Inr t"
    and wf: "wellFormed d ?n t"
    and leaf: "\<And>j. j < ?n \<Longrightarrow> t ! (2 * ?n - 2 - j) = snd (?sorted ! j)"
    by auto
  from wf have lt: "length t = 2 * ?n - 1" and n0: "0 < ?n"
    by (simp_all add: wellFormed_def)
  let ?xs = "zip [0..<length ?sorted] ?sorted"
  let ?iv = "foldl (assign (length t)) (map (\<lambda>v. (v, 0)) vs) ?xs"
  have of_eq: "StandardMerkleTree_of d vs = Inr \<lparr>tree = t, indexedValues = ?iv\<rparr>"
    using mk by (simp add: StandardMerkleTree_of_def Let_def assign_def)
  have "map snd ?xs = ?sorted"
    by (rule map_snd_zip) simp
  then have "map fst (map snd ?xs) = map fst ?sorted"
    by (rule arg_cong)
  then have keys: "map (\<lambda>x. fst (snd x)) ?xs = map fst ?sorted"
    by (simp only: map_map comp_def)
  have dist: "distinct (map (\<lambda>x. fst (snd x)) ?xs)"
    using sf(3) by (simp only: keys)
  have each: "fst (?iv ! i) = vs ! i \<and> isLeafNode t (snd (?iv ! i))
                \<and> t ! snd (?iv ! i) = standardLeafHash d (vs ! i)"
    if i: "i < ?n" for i
  proof -
    from sf(4) [of i] i obtain j where j: "j < ?n" "?sorted ! j = (i, ?hs ! i)"
      by auto
    from j sf(1) have "(j, i, ?hs ! i) \<in> set ?xs"
      by (auto simp: set_zip intro!: exI [of _ j])
    from assign_hit [OF dist this, of "map (\<lambda>v. (v, 0)) vs" "length t"] i
    have ti: "snd (?iv ! i) = length t - j - 1" by simp
    with lt have ti': "snd (?iv ! i) = 2 * ?n - 2 - j" by simp
    from i have f: "fst (?iv ! i) = vs ! i"
      by (simp add: assign_fst)
    from j(1) lt ti' have l: "isLeafNode t (snd (?iv ! i))"
      by (simp add: isLeafNode_def) arith
    from leaf [OF j(1)] j(2) i ti' have "t ! snd (?iv ! i) = standardLeafHash d (vs ! i)"
      by simp
    with f l show ?thesis by simp
  qed
  show ?thesis
    using of_eq wf each by (intro exI [of _ "\<lparr>tree = t, indexedValues = ?iv\<rparr>"]) simp
qed

lemma tree_getProof_ok:
  assumes wf: "wellFormed d n (tree t)"
      and i: "i < length (indexedValues t)"
      and leaf: "isLeafNode (tree t) (snd (indexedValues t ! i))"
  shows "tree_getProof d t i = Inr (getProofLoop (tree t) (snd (indexedValues t ! i)))
         \<and> processProof d (tree t ! snd (indexedValues t ! i))
               (getProofLoop (tree t) (snd (indexedValues t ! i))) = tree t ! 0"
proof -
  from leaf have "snd (indexedValues t ! i) < length (tree t)"
    by (simp add: isLeafNode_def)
  from proof_verifies [OF wf this]
  have v: "processProof d (tree t ! snd (indexedValues t ! i))
             (getProofLoop (tree t) (snd (indexedValues t ! i))) = tree t ! 0" .
  with i leaf show ?thesis
    by (simp add: tree_getProof_def getProof_def Let_def)
qed

lemma collectProofs_ok:
  "\<forall>i\<in>set is. tree_getProof d t i = Inr (P i) \<Longrightarrow>
     collectProofs d t is = Inr (map (\<lambda>i. (P i, fst (indexedValues t ! i))) is)"
  by (induction "is") simp_all

lemma merkleBuilder_ok:
  assumes "vs \<noteq> []"
  shows "\<exists>root ps. merkleBuilder d vs = Inr (root, ps) \<and> length ps = length vs
           \<and> (\<forall>i<length vs. snd (ps ! i) = vs ! i
                 \<and> processProof d (standardLeafHash d (vs ! i)) (fst (ps ! i)) = root)"
proof -
  from StandardMerkleTree_of_facts [OF assms, of d]
  obtain t where t: "StandardMerkleTree_of d vs = Inr t"
    and wf: "wellFormed d (length vs) (tree t)"
    and len: "length (indexedValues t) = length vs"
    and each: "\<And>i. i < length vs \<Longrightarrow> fst (indexedValues t ! i) = vs ! i
                 \<and> isLeafNode (tree t) (snd (indexedValues t ! i))
                 \<and> tree t ! snd (indexedValues t ! i) = standardLeafHash d (vs ! i)"
    by blast
  let ?P = "\<lambda>i. getProofLoop (tree t) (snd (indexedValues t ! i))"
  let ?ps = "map (\<lambda>i. (?P i, fst (indexedValues t ! i))) [0..<length (indexedValues t)]"
  have g: "tree_getProof d t i = Inr (?P i)
           \<and> processProof d (tree t ! snd (indexedValues t ! i)) (?P i) = tree t ! 0"
    if "i < length vs" for i
    using that len each [OF that] by (intro tree_getProof_ok [OF wf]) simp_all
  have "\<forall>i\<in>set [0..<length (indexedValues t)]. tree_getProof d t i = Inr (?P i)"
    using g len by simp
  from collectProofs_ok [OF this]
  have c: "collectProofs d t [0..<length (indexedValues t)] = Inr ?ps" .
  have b: "merkleBuilder d vs = Inr (tree t ! 0, ?ps)"
    using t c by (simp add: merkleBuilder_def)
  have e: "snd (?ps ! i) = vs ! i
           \<and> processProof d (standardLeafHash d (vs ! i)) (fst (?ps ! i)) = tree t ! 0"
    if "i < length vs" for i
    using that len g [OF that] each [OF that] by simp
  from b len e show ?thesis
    by (intro exI [of _ "tree t ! 0"] exI [of _ ?ps]) simp
qed

lemma every_Inr:
  "every d k es = Inr u \<Longrightarrow> j < length es \<Longrightarrow> verifyEntry d (k + j) (es ! j) = Inr ()"
proof (induction es arbitrary: k j)
  case Nil
  then show ?case by simp
next
  case (Cons e es)
  from Cons.prems(1) have h: "verifyEntry d k e = Inr ()" and r: "every d (Suc k) es = Inr u"
    by (auto split: sum.splits)
  show ?case
  proof (cases j)
    case 0
    with h show ?thesis by simp
  next
    case (Suc m)
    with Cons.prems(2) have "m < length es" by simp
    from Cons.IH [OF r this] Suc show ?thesis by simp
  qed
qed

lemma verifyEntry_Inr:
  assumes "verifyEntry d k e = Inr u"
  shows "canonical d (WhitelistEntry.WhitelistAddress e) \<noteq> ZeroAddress"
proof -
  let ?a = "WhitelistEntry.WhitelistAddress e"
  from assms have l: "length ?a = 42" and z: "?a \<noteq> ZeroAddress"
    by (auto simp: verifyEntry_def ValidEvmAddressLen_def split: if_splits)
  from assms obtain c where c: "getAddress d ?a = Some c"
    by (auto simp: verifyEntry_def split: if_splits option.splits)
  from canonical_form [OF l c z] c show ?thesis
    by (simp add: canonical_def)
qed

lemma inputGate_Inr:
  assumes "inputGate d es = Inr vs"
  shows "vs = map (leafValue d) es \<and> every d 0 es = Inr ()
         \<and> length es \<le> ValidateWhitelistEntriesMaxCount"
  using assms
  by (auto simp: inputGate_def entryChecks_def split: if_splits sum.splits)

lemma merkleBuilder_example:
  "merkleBuilder exampleDeps exampleValues
     = Inr (0, [([0], (''0x1111111111111111111111111111111111111111'', ''1'')),
                ([0], (''0x2222222222222222222222222222222222222222'', ''1''))])"
  by code_simp

lemma entryChecks_example: "entryChecks exampleDeps exampleEntries = Inr exampleValues"
  by code_simp

lemma inputGate_example: "inputGate exampleDeps exampleEntries = Inr exampleValues"
  using entryChecks_example
  by (simp add: inputGate_def ValidateWhitelistEntriesMaxCount_def exampleEntries_def)

lemma round_trip_nonempty:
  assumes gate: "inputGate d whitelistEntries = Inr vs"
      and ne: "whitelistEntries \<noteq> []"
  shows "length whitelistEntries \<le> 100000
         \<and> (\<exists>root ps. merkleBuilder d vs = Inr (root, ps)
              \<and> length ps = length whitelistEntries
              \<and> (\<forall>i<length whitelistEntries.
                    snd (ps ! i) = leafValue d (whitelistEntries ! i)
                  \<and> MerkleProof_verify d (fst (ps ! i)) root (standardLeafHash d (snd (ps ! i)))
                  \<and> isWhitelistedFor d root (fst (snd (ps ! i))) (snd (snd (ps ! i)))
                       (fst (ps ! i)) = Inr True))"
proof -
  from inputGate_Inr [OF gate]
  have vs: "vs = map (leafValue d) whitelistEntries"
    and ev: "every d 0 whitelistEntries = Inr ()"
    and n: "length whitelistEntries \<le> 100000"
    by (simp_all add: ValidateWhitelistEntriesMaxCount_def)
  from vs ne have nv: "vs \<noteq> []" by auto
  from merkleBuilder_ok [OF nv, of d]
  obtain root ps where b: "merkleBuilder d vs = Inr (root, ps)"
    and len: "length ps = length vs"
    and each: "\<And>i. i < length vs \<Longrightarrow> snd (ps ! i) = vs ! i
                 \<and> processProof d (standardLeafHash d (vs ! i)) (fst (ps ! i)) = root"
    by blast
  have one: "snd (ps ! i) = leafValue d (whitelistEntries ! i)
           \<and> MerkleProof_verify d (fst (ps ! i)) root (standardLeafHash d (snd (ps ! i)))
           \<and> isWhitelistedFor d root (fst (snd (ps ! i))) (snd (snd (ps ! i)))
                (fst (ps ! i)) = Inr True"
    if i: "i < length whitelistEntries" for i
  proof -
    from vs i have iv: "i < length vs" by simp
    from each [OF iv] vs i
    have v: "snd (ps ! i) = leafValue d (whitelistEntries ! i)"
      and p: "processProof d (standardLeafHash d (snd (ps ! i))) (fst (ps ! i)) = root"
      by simp_all
    from p have m: "MerkleProof_verify d (fst (ps ! i)) root (standardLeafHash d (snd (ps ! i)))"
      by (simp add: verify_processProof)
    from every_Inr [OF ev i] have "verifyEntry d i (whitelistEntries ! i) = Inr ()"
      by simp
    from verifyEntry_Inr [OF this] v
    have nz: "fst (snd (ps ! i)) \<noteq> ZeroAddress"
      by (simp add: leafValue_def)
    from m nz have "isWhitelistedFor d root (fst (snd (ps ! i))) (snd (snd (ps ! i)))
                       (fst (ps ! i)) = Inr True"
      by (simp add: isWhitelistedFor_def standardLeafHash_def Let_def)
    with v m show ?thesis by simp
  qed
  from vs len have l: "length ps = length whitelistEntries" by simp
  from one have all: "\<forall>i<length whitelistEntries.
                    snd (ps ! i) = leafValue d (whitelistEntries ! i)
                  \<and> MerkleProof_verify d (fst (ps ! i)) root (standardLeafHash d (snd (ps ! i)))
                  \<and> isWhitelistedFor d root (fst (snd (ps ! i))) (snd (snd (ps ! i)))
                       (fst (ps ! i)) = Inr True"
    by blast
  from b l all have "\<exists>root ps. merkleBuilder d vs = Inr (root, ps)
              \<and> length ps = length whitelistEntries
              \<and> (\<forall>i<length whitelistEntries.
                    snd (ps ! i) = leafValue d (whitelistEntries ! i)
                  \<and> MerkleProof_verify d (fst (ps ! i)) root (standardLeafHash d (snd (ps ! i)))
                  \<and> isWhitelistedFor d root (fst (snd (ps ! i))) (snd (snd (ps ! i)))
                       (fst (ps ! i)) = Inr True)"
    by (intro exI [of _ root] exI [of _ ps] conjI)
  with n show ?thesis by simp
qed

text \<open>
  Claim C1, as amended. Let the input gate of \<^verbatim>\<open>createMerkleTree\<close> accept a list of entries
  (so the list has at most 100,000 entries, each one valid, with pairwise different
  canonical addresses) and hand the values \<open>vs\<close> to the Merkle builder. When the list is
  not empty, the builder returns a root and one proof per entry, in the order of the
  entries; the value emitted with the \<open>i\<close>-th proof is the pair of the checksummed address
  and the amount in wei of the \<open>i\<close>-th entry; the proof verifies against the root with the
  sorted-pair hash from the leaf \<open>keccak256 (keccak256 (abi_encode (address, amountWei)))\<close>;
  and the contract's \<^verbatim>\<open>isWhitelistedFor\<close> returns true on the emitted address, amount
  and proof under that root. When the list is empty, the builder raises an error and
  emits nothing. This holds for every hash function \<open>keccak256\<close> and every encoder.
\<close>

theorem C1_round_trip:
  assumes gate: "inputGate d whitelistEntries = Inr vs"
  shows "length whitelistEntries \<le> 100000
       \<and> (whitelistEntries \<noteq> [] \<longrightarrow>
            (\<exists>root ps. merkleBuilder d vs = Inr (root, ps)
               \<and> length ps = length whitelistEntries
               \<and> (\<forall>i<length whitelistEntries.
                     snd (ps ! i) = leafValue d (whitelistEntries ! i)
                   \<and> MerkleProof_verify d (fst (ps ! i)) root (standardLeafHash d (snd (ps ! i)))
                   \<and> isWhitelistedFor d root (fst (snd (ps ! i))) (snd (snd (ps ! i)))
                        (fst (ps ! i)) = Inr True)))
       \<and> (whitelistEntries = [] \<longrightarrow>
            merkleBuilder d vs = Inl (Error ''Expected non-zero number of leaves''))"
proof -
  from inputGate_Inr [OF gate]
  have vs: "vs = map (leafValue d) whitelistEntries"
    and n: "length whitelistEntries \<le> 100000"
    by (simp_all add: ValidateWhitelistEntriesMaxCount_def)
  have e: "merkleBuilder d vs = Inl (Error ''Expected non-zero number of leaves'')"
    if "whitelistEntries = []"
    using that vs by (simp add: merkleBuilder_no_leaves)
  note r = round_trip_nonempty [OF gate, THEN conjunct2]
  from n r e show ?thesis
    by (intro conjI impI)
qed

theorem C1_round_trip_witness:
  "inputGate exampleDeps exampleEntries = Inr exampleValues
   \<and> exampleEntries \<noteq> []
   \<and> merkleBuilder exampleDeps exampleValues
       = Inr (0, [([0], (''0x1111111111111111111111111111111111111111'', ''1'')),
                  ([0], (''0x2222222222222222222222222222222222222222'', ''1''))])
   \<and> isWhitelistedFor exampleDeps 0 ''0x2222222222222222222222222222222222222222'' ''1'' [0]
       = Inr True"
proof -
  have ne: "exampleEntries \<noteq> []"
    by (simp add: exampleEntries_def)
  have i: "(1::nat) < length exampleEntries"
    by (simp add: exampleEntries_def)
  from C1_round_trip [OF inputGate_example, THEN conjunct2, THEN conjunct1, THEN mp, OF ne]
  obtain root ps where b: "merkleBuilder exampleDeps exampleValues = Inr (root, ps)"
    and each: "\<forall>i<length exampleEntries.
                 snd (ps ! i) = leafValue exampleDeps (exampleEntries ! i)
               \<and> MerkleProof_verify exampleDeps (fst (ps ! i)) root
                     (standardLeafHash exampleDeps (snd (ps ! i)))
               \<and> isWhitelistedFor exampleDeps root (fst (snd (ps ! i))) (snd (snd (ps ! i)))
                     (fst (ps ! i)) = Inr True"
    by blast
  from b merkleBuilder_example
  have r: "root = 0"
    and p: "ps = [([0], (''0x1111111111111111111111111111111111111111'', ''1'')),
                  ([0], (''0x2222222222222222222222222222222222222222'', ''1''))]"
    by simp_all
  from each [rule_format, OF i, THEN conjunct2, THEN conjunct2]
  have "isWhitelistedFor exampleDeps 0 ''0x2222222222222222222222222222222222222222'' ''1'' [0]
          = Inr True"
    unfolding r p by simp
  with inputGate_example ne merkleBuilder_example show ?thesis
    by simp
qed

text \<open>
  The claim as stated fails for N = 0: the input gate accepts the CSV without rows, and
  the builder raises on the empty list of values instead of emitting a root.
\<close>

theorem C1_round_trip_counterexample:
  "inputGate exampleDeps [] = Inr []
   \<and> merkleBuilder exampleDeps [] = Inl (Error ''Expected non-zero number of leaves'')"
  by (simp add: inputGate_no_rows merkleBuilder_no_leaves)

end
